theory Spec2Isabelle
  imports Complex_Main "HOL-Library.AList"
begin

section \<open>Correlation network dashboard (app.py)\<close>

subsection \<open>Correlation records and the row filter\<close>

text \<open>
  A Python float as \<^verbatim>\<open>pd.read_csv\<close> can produce it: a finite value, modelled by the
  real number it denotes (\<open>Finite 0\<close> is \<^verbatim>\<open>+0.0\<close>), negative zero, the two
  infinities, or NaN, which is what an empty cell becomes. The comparisons with 0 and
  \<^verbatim>\<open>abs\<close> follow IEEE 754: NaN is neither above nor below 0.
\<close>

datatype pyfloat = Finite real | MinusZero | Infinity | MinusInfinity | NotANumber

definition is_positive :: "pyfloat \<Rightarrow> bool" where
  "is_positive w = (case w of Finite x \<Rightarrow> x > 0 | Infinity \<Rightarrow> True | _ \<Rightarrow> False)"

definition is_negative :: "pyfloat \<Rightarrow> bool" where
  "is_negative w = (case w of Finite x \<Rightarrow> x < 0 | MinusInfinity \<Rightarrow> True | _ \<Rightarrow> False)"


definition fabs :: "pyfloat \<Rightarrow> pyfloat" where
  "fabs w =
     (case w of Finite x \<Rightarrow> Finite \<bar>x\<bar> | MinusZero \<Rightarrow> Finite 0 | Infinity \<Rightarrow> Infinity
      | MinusInfinity \<Rightarrow> Infinity | NotANumber \<Rightarrow> NotANumber)"

text \<open>
  One row of the correlation table read by \<^verbatim>\<open>pd.read_csv\<close>: the columns
  \<^verbatim>\<open>KRAB-ZNF\<close>, \<^verbatim>\<open>Gene\<close>, \<^verbatim>\<open>coef\<close> and \<^verbatim>\<open>exp\<close>.
\<close>

record corr_row =
  krab_znf :: string
  te_gene :: string
  coef :: pyfloat
  exp_col :: string

text \<open>
  Lines 26-33 of app.py: the sign filter is an \<^verbatim>\<open>if/elif\<close> on the selected string,
  the category filter a second, independent \<^verbatim>\<open>if\<close>.
\<close>

definition filter_coef :: "string \<Rightarrow> corr_row list \<Rightarrow> corr_row list" where
  "filter_coef coef_direction df =
     (if coef_direction = ''positive'' then filter (\<lambda>r. is_positive (coef r)) df
      else if coef_direction = ''negative'' then filter (\<lambda>r. is_negative (coef r)) df
      else df)"

definition filter_exp :: "string \<Rightarrow> corr_row list \<Rightarrow> corr_row list" where
  "filter_exp exp_filter df =
     (if exp_filter \<noteq> ''both'' then filter (\<lambda>r. exp_col r = exp_filter) df else df)"

definition apply_filters :: "string \<Rightarrow> string \<Rightarrow> corr_row list \<Rightarrow> corr_row list" where
  "apply_filters coef_direction exp_filter df = filter_exp exp_filter (filter_coef coef_direction df)"





definition example_records :: "corr_row list" where
  "example_records =
     [\<lparr>krab_znf = ''TF1'', te_gene = ''L1PA2'', coef = Finite 0.8, exp_col = ''up-regulated''\<rparr>,
      \<lparr>krab_znf = ''TF1'', te_gene = ''AluSx'', coef = Finite (-0.3), exp_col = ''down-regulated''\<rparr>]"

subsection \<open>The graph container\<close>

text \<open>
  \<^verbatim>\<open>nx.Graph\<close> keeps two insertion-ordered dictionaries: \<^verbatim>\<open>_node\<close> from a node
  to its attribute dictionary and \<^verbatim>\<open>_adj\<close> from a node to the dictionary of its
  neighbours, each neighbour mapped to the edge data. A dictionary is an association list
  with distinct keys in insertion order; assigning an existing key replaces the value in
  place, assigning a new key appends (\<^const>\<open>AList.update\<close>). The only edge attribute
  the dashboard ever stores is \<^verbatim>\<open>weight\<close>, so the edge data is that number. Both
  directions of an edge share one data dictionary in networkx; here each direction holds
  the value, and \<open>add_edge\<close> writes both.
\<close>

type_synonym attrs = "(string \<times> string) list"

record graph =
  g_node :: "(string \<times> attrs) list"
  g_adj :: "(string \<times> (string \<times> pyfloat) list) list"

definition empty_graph :: graph where
  "empty_graph = \<lparr>g_node = [], g_adj = []\<rparr>"

definition dict_update :: "attrs \<Rightarrow> attrs \<Rightarrow> attrs" where
  "dict_update d kvs = foldl (\<lambda>acc (k, v). AList.update k v acc) d kvs"

definition add_node :: "string \<Rightarrow> attrs \<Rightarrow> graph \<Rightarrow> graph" where
  "add_node n attr G =
     (case map_of (g_node G) n of
        None \<Rightarrow> G\<lparr>g_adj := AList.update n [] (g_adj G),
                  g_node := AList.update n (dict_update [] attr) (g_node G)\<rparr>
      | Some d \<Rightarrow> G\<lparr>g_node := AList.update n (dict_update d attr) (g_node G)\<rparr>)"

definition ensure_node :: "string \<Rightarrow> graph \<Rightarrow> graph" where
  "ensure_node n G =
     (case map_of (g_node G) n of
        None \<Rightarrow> G\<lparr>g_adj := AList.update n [] (g_adj G), g_node := AList.update n [] (g_node G)\<rparr>
      | Some d \<Rightarrow> G)"

definition add_edge :: "string \<Rightarrow> string \<Rightarrow> pyfloat \<Rightarrow> graph \<Rightarrow> graph" where
  "add_edge u v w G =
     (let G' = ensure_node v (ensure_node u G);
          adj1 = AList.map_entry u (AList.update v w) (g_adj G');
          adj2 = AList.map_entry v (AList.update u w) adj1
      in G'\<lparr>g_adj := adj2\<rparr>)"

definition nodes :: "graph \<Rightarrow> string list" where
  "nodes G = map fst (g_node G)"

text \<open>
  \<^verbatim>\<open>G.edges(data=True)\<close> walks \<^verbatim>\<open>_adj\<close> in order and reports an edge at the first
  of its endpoints it meets: a neighbour already in \<^verbatim>\<open>seen\<close> is skipped.
\<close>

fun edges_from :: "string list \<Rightarrow> (string \<times> (string \<times> pyfloat) list) list \<Rightarrow> (string \<times> string \<times> pyfloat) list" where
  "edges_from seen [] = []"
| "edges_from seen ((n, nbrs) # rest) =
     map (\<lambda>(nbr, d). (n, nbr, d)) (filter (\<lambda>(nbr, d). nbr \<notin> set seen) nbrs)
     @ edges_from (n # seen) rest"

definition edges :: "graph \<Rightarrow> (string \<times> string \<times> pyfloat) list" where
  "edges G = edges_from [] (g_adj G)"

subsection \<open>Graph builder\<close>

text \<open>Lines 36-46 of app.py: the body of the loop over \<^verbatim>\<open>df.iterrows()\<close>, and the loop.\<close>

definition add_row :: "graph \<Rightarrow> corr_row \<Rightarrow> graph" where
  "add_row G row =
     (let gene = krab_znf row; te = te_gene row; c = coef row; e = exp_col row
      in add_edge gene te c
           (add_node te [(''type'', ''te''), (''exp'', e)]
             (add_node gene [(''type'', ''gene'')] G)))"

definition build_graph :: "corr_row list \<Rightarrow> graph" where
  "build_graph df = foldl add_row empty_graph df"

text \<open>Lines 48-51: the companion graph with absolute weights, built from the edges only.\<close>

definition pos_weight_graph :: "graph \<Rightarrow> graph" where
  "pos_weight_graph G = foldl (\<lambda>H (u, v, d). add_edge u v (fabs d) H) empty_graph (edges G)"

subsection \<open>Reading the graph\<close>

text \<open>
  \<^verbatim>\<open>G.nodes[n]\<close> and \<^verbatim>\<open>G._adj[u][v]\<close> as lookups, and the well-formedness that
  networkx maintains: dictionaries have distinct keys, and \<^verbatim>\<open>_adj\<close> has an entry for
  exactly the nodes.
\<close>

definition node_attr :: "graph \<Rightarrow> string \<Rightarrow> attrs option" where
  "node_attr G n = map_of (g_node G) n"

definition nbr_weight :: "(string \<times> (string \<times> pyfloat) list) list \<Rightarrow> string \<Rightarrow> string \<Rightarrow> pyfloat option" where
  "nbr_weight adj u v = (case map_of adj u of None \<Rightarrow> None | Some nb \<Rightarrow> map_of nb v)"

definition adj_weight :: "graph \<Rightarrow> string \<Rightarrow> string \<Rightarrow> pyfloat option" where
  "adj_weight G u v = nbr_weight (g_adj G) u v"

text \<open>The undirected edge between \<open>u\<close> and \<open>v\<close> is the one between \<open>x\<close> and \<open>y\<close>.\<close>

definition joins :: "string \<Rightarrow> string \<Rightarrow> string \<Rightarrow> string \<Rightarrow> bool" where
  "joins u v x y \<longleftrightarrow> (x = u \<and> y = v) \<or> (x = v \<and> y = u)"

definition graph_ok :: "graph \<Rightarrow> bool" where
  "graph_ok G \<longleftrightarrow>
     distinct (map fst (g_node G)) \<and> distinct (map fst (g_adj G)) \<and>
     list_all (\<lambda>(n, nb). distinct (map fst nb)) (g_adj G) \<and>
     set (map fst (g_adj G)) = set (map fst (g_node G))"

text \<open>
  \<^verbatim>\<open>G.nodes[n]['type']\<close>, and what the specification calls the later record's
  coefficient: the coefficient of the last record of the table that joins \<open>x\<close> and \<open>y\<close>.
\<close>

definition node_type :: "graph \<Rightarrow> string \<Rightarrow> string option" where
  "node_type G n = (case node_attr G n of None \<Rightarrow> None | Some d \<Rightarrow> map_of d ''type'')"

definition last_coef :: "corr_row list \<Rightarrow> string \<Rightarrow> string \<Rightarrow> pyfloat option" where
  "last_coef df x y = map_option coef (find (\<lambda>r. joins (krab_znf r) (te_gene r) x y) (rev df))"

definition gene_ids :: "corr_row list \<Rightarrow> string set" where
  "gene_ids df = set (map krab_znf df)"

definition te_ids :: "corr_row list \<Rightarrow> string set" where
  "te_ids df = set (map te_gene df)"

text \<open>The endpoints of a reported edge, as an unordered pair.\<close>

definition ends :: "string \<times> string \<times> pyfloat \<Rightarrow> string set" where
  "ends e = (case e of (u, v, w) \<Rightarrow> {u, v})"

text \<open>The weights of the reported edges between \<open>x\<close> and \<open>y\<close>, in report order.\<close>

definition edge_weights :: "graph \<Rightarrow> string \<Rightarrow> string \<Rightarrow> pyfloat list" where
  "edge_weights G x y = map (\<lambda>(u, v, w). w) (filter (\<lambda>e. ends e = {x, y}) (edges G))"

text \<open>A table whose third row repeats the gene/TE pair of the first with another coefficient.\<close>

definition overwrite_records :: "corr_row list" where
  "overwrite_records =
     [\<lparr>krab_znf = ''TF1'', te_gene = ''L1PA2'', coef = Finite 0.8, exp_col = ''up-regulated''\<rparr>,
      \<lparr>krab_znf = ''TF1'', te_gene = ''AluSx'', coef = Finite (-0.3), exp_col = ''down-regulated''\<rparr>,
      \<lparr>krab_znf = ''TF1'', te_gene = ''L1PA2'', coef = Finite 0.4, exp_col = ''up-regulated''\<rparr>]"

text \<open>
  Two tables that together use one identifier, \<^verbatim>\<open>L1PA2\<close>, both as a TE and as a gene
  symbol.
\<close>

definition first_record :: "corr_row list" where
  "first_record =
     [\<lparr>krab_znf = ''ZNF91'', te_gene = ''L1PA2'', coef = Finite 0.8, exp_col = ''up-regulated''\<rparr>]"

definition later_record :: "corr_row list" where
  "later_record =
     [\<lparr>krab_znf = ''L1PA2'', te_gene = ''AluSx'', coef = Finite (-0.3), exp_col = ''down-regulated''\<rparr>]"

text \<open>
  A table in which \<^verbatim>\<open>L1PA2\<close> is used in both roles while \<^verbatim>\<open>ZNF91\<close> is a gene in
  two records.
\<close>

definition mixed_records :: "corr_row list" where
  "mixed_records =
     [\<lparr>krab_znf = ''ZNF91'', te_gene = ''L1PA2'', coef = Finite 0.8, exp_col = ''up-regulated''\<rparr>,
      \<lparr>krab_znf = ''L1PA2'', te_gene = ''AluSx'', coef = Finite (-0.3), exp_col = ''down-regulated''\<rparr>,
      \<lparr>krab_znf = ''ZNF91'', te_gene = ''AluSx'', coef = Finite 0.7, exp_col = ''down-regulated''\<rparr>,
      \<lparr>krab_znf = ''ZNF91'', te_gene = ''AluSx'', coef = Finite 0.4, exp_col = ''up-regulated''\<rparr>]"

subsection \<open>Layout\<close>

text \<open>
  Every \<^verbatim>\<open>raise\<close> of the script is a value of this type.
\<close>

datatype error =
  KeyError string | TypeError string | ValueError string | LayoutError string | ReadError string

type_synonym positions = "string \<rightharpoonup> real \<times> real"

text \<open>
  Modelled from the spec: \<^verbatim>\<open>nx.kamada_kawai_layout\<close> and \<^verbatim>\<open>nx.spring_layout\<close>
  belong to networkx and are not among the sources. Section 4.3 of the specification
  gives their interface: a function from a weighted graph to a mapping from node identity
  to a 2D coordinate, where the primary strategy may fail to converge or raise, and the
  seeded fallback tolerates empty and single-node graphs and produces the empty map for
  zero nodes. The numeric algorithms are parameters, each returning one coordinate pair
  per node index or raising; nothing is assumed of them. Around them,
  \<^verbatim>\<open>dict(zip(G, pos))\<close> pairs the nodes, in iteration order, with the rows of the
  coordinate array, and the fallback answers a graph of no node with the empty map and a
  graph of one node with that node at the centre, without running its algorithm.
\<close>

type_synonym coordinates = "nat \<Rightarrow> real \<times> real"

definition dict_zip :: "string list \<Rightarrow> coordinates \<Rightarrow> positions" where
  "dict_zip ns arr = map_of (rev (zip ns (map arr [0..<length ns])))"

definition kamada_kawai_layout :: "(graph \<Rightarrow> error + coordinates) \<Rightarrow> graph \<Rightarrow> error + positions" where
  "kamada_kawai_layout solve H =
     (case solve H of Inl e \<Rightarrow> Inl e | Inr arr \<Rightarrow> Inr (dict_zip (nodes H) arr))"

definition spring_layout ::
  "(graph \<Rightarrow> nat \<Rightarrow> error + coordinates) \<Rightarrow> graph \<Rightarrow> nat \<Rightarrow> error + positions" where
  "spring_layout solve H seed =
     (if length (nodes H) = 0 then Inr Map.empty
      else if length (nodes H) = 1 then Inr [hd (nodes H) \<mapsto> (0, 0)]
      else case solve H seed of Inl e \<Rightarrow> Inl e | Inr arr \<Rightarrow> Inr (dict_zip (nodes H) arr))"

text \<open>
  Lines 53-57: the bare \<^verbatim>\<open>except:\<close> catches whatever the primary layout raises and
  calls the fallback with \<^verbatim>\<open>seed=42\<close>; what the fallback raises is not caught.
\<close>

definition compute_pos ::
  "(graph \<Rightarrow> error + coordinates) \<Rightarrow> (graph \<Rightarrow> nat \<Rightarrow> error + coordinates) \<Rightarrow> graph \<Rightarrow> error + positions" where
  "compute_pos kamada_kawai fruchterman_reingold H =
     (case kamada_kawai_layout kamada_kawai H of
        Inr pos \<Rightarrow> Inr pos
      | Inl e \<Rightarrow> spring_layout fruchterman_reingold H 42)"

subsection \<open>Renderer\<close>

definition custom_red :: string where
  "custom_red = ''#C41E3A''"

definition custom_blue :: string where
  "custom_blue = ''#5073F8''"

text \<open>
  Python's \<^verbatim>\<open>format(w, '.2f')\<close>. The exact value of a finite float is rounded to two
  decimals, ties to even, and printed with its sign, its integer digits, a point and two
  digits; negative zero prints as \<^verbatim>\<open>-0.00\<close>; an infinity prints as \<^verbatim>\<open>inf\<close> or
  \<^verbatim>\<open>-inf\<close> and NaN as \<^verbatim>\<open>nan\<close>, with no decimals.
\<close>

definition digit_char :: "nat \<Rightarrow> char" where
  "digit_char d = ''0123456789'' ! d"

function show_nat :: "nat \<Rightarrow> string" where
  "show_nat n = (if n < 10 then [digit_char n] else show_nat (n div 10) @ [digit_char (n mod 10)])"
  by pat_completeness auto
termination
  by (relation "measure id") auto

declare show_nat.simps [simp del]

definition round_half_even :: "real \<Rightarrow> int" where
  "round_half_even x =
     (let f = \<lfloor>x\<rfloor>; d = x - of_int f
      in if d < 1/2 then f else if d > 1/2 then f + 1 else if even f then f else f + 1)"

definition format_finite :: "real \<Rightarrow> string" where
  "format_finite x =
     (let n = nat (round_half_even (\<bar>x\<bar> * 100))
      in (if x < 0 then ''-'' else []) @ show_nat (n div 100) @ ''.''
         @ [digit_char ((n div 10) mod 10), digit_char (n mod 10)])"

definition format_2f :: "pyfloat \<Rightarrow> string" where
  "format_2f w =
     (case w of Finite x \<Rightarrow> format_finite x | MinusZero \<Rightarrow> ''-0.00'' | Infinity \<Rightarrow> ''inf''
      | MinusInfinity \<Rightarrow> ''-inf'' | NotANumber \<Rightarrow> ''nan'')"

text \<open>The arrow of the hover label is U+2194, three bytes in UTF-8.\<close>

definition arrow :: string where
  "arrow = [char_of (226::nat), char_of (134::nat), char_of (148::nat)]"

definition hover_text :: "string \<Rightarrow> string \<Rightarrow> pyfloat \<Rightarrow> string" where
  "hover_text u v w = u @ '' '' @ arrow @ '' '' @ v @ ''<br>coef='' @ format_2f w"

text \<open>
  The two kinds of \<^verbatim>\<open>go.Scatter\<close> the script creates, with the attributes it sets:
  one \<^verbatim>\<open>mode='lines'\<close> trace per edge (lines 63-78) and one
  \<^verbatim>\<open>mode='markers+text'\<close> trace for all nodes (lines 98-113).
\<close>

record line_scatter =
  ls_x :: "real option list"
  ls_y :: "real option list"
  ls_mode :: string
  ls_line_width :: nat
  ls_line_color :: string
  ls_hoverinfo :: string
  ls_text :: string
  ls_showlegend :: bool

record marker_scatter =
  ms_x :: "real list"
  ms_y :: "real list"
  ms_mode :: string
  ms_text :: "string list"
  ms_textposition :: string
  ms_hoverinfo :: string
  ms_marker_size :: nat
  ms_marker_color :: "string list"
  ms_marker_line_width :: nat
  ms_marker_line_color :: "string list"
  ms_textfont_color :: string

datatype trace = Lines line_scatter | Markers marker_scatter

record figure =
  fig_data :: "trace list"
  fig_title :: string
  fig_width :: nat
  fig_height :: nat

definition edge_scatter :: "positions \<Rightarrow> string \<times> string \<times> pyfloat \<Rightarrow> error + line_scatter" where
  "edge_scatter pos e =
     (case e of (u, v, w) \<Rightarrow>
        let color = (if is_positive w then custom_red else custom_blue) in
        (case pos u of None \<Rightarrow> Inl (KeyError u) | Some (x0, y0) \<Rightarrow>
        (case pos v of None \<Rightarrow> Inl (KeyError v) | Some (x1, y1) \<Rightarrow>
           Inr \<lparr>ls_x = [Some x0, Some x1, None], ls_y = [Some y0, Some y1, None],
                ls_mode = ''lines'', ls_line_width = 2, ls_line_color = color,
                ls_hoverinfo = ''text'', ls_text = hover_text u v w,
                ls_showlegend = False\<rparr>)))"

fun edge_loop :: "positions \<Rightarrow> (string \<times> string \<times> pyfloat) list \<Rightarrow> error + line_scatter list" where
  "edge_loop pos [] = Inr []"
| "edge_loop pos (e # es) =
     (case edge_scatter pos e of Inl err \<Rightarrow> Inl err
      | Inr t \<Rightarrow> (case edge_loop pos es of Inl err \<Rightarrow> Inl err | Inr ts \<Rightarrow> Inr (t # ts)))"

text \<open>
  Lines 84-96. The five lists grow by one entry per node. Line 95 reads the category with
  \<^verbatim>\<open>.get('exp', 'up')\<close>; line 96 compares it with \<^verbatim>\<open>'up-regulated'\<close>.
\<close>

record node_lists =
  node_x :: "real list"
  node_y :: "real list"
  node_text :: "string list"
  node_color :: "string list"
  node_border_color :: "string list"

definition dict_get :: "attrs \<Rightarrow> string \<Rightarrow> string \<Rightarrow> string" where
  "dict_get d k dflt = (case map_of d k of None \<Rightarrow> dflt | Some v \<Rightarrow> v)"

definition te_border_color :: "attrs \<Rightarrow> string" where
  "te_border_color d =
     (let e = dict_get d ''exp'' ''up''
      in if e = ''up-regulated'' then custom_red else custom_blue)"

definition node_step :: "graph \<Rightarrow> positions \<Rightarrow> node_lists \<Rightarrow> string \<Rightarrow> error + node_lists" where
  "node_step G pos acc node =
     (case pos node of None \<Rightarrow> Inl (KeyError node) | Some (x, y) \<Rightarrow>
      let acc1 = acc\<lparr>node_x := node_x acc @ [x], node_y := node_y acc @ [y],
                      node_text := node_text acc @ [node]\<rparr> in
      (case node_attr G node of None \<Rightarrow> Inl (KeyError node) | Some d \<Rightarrow>
       (case map_of d ''type'' of None \<Rightarrow> Inl (KeyError ''type'') | Some t \<Rightarrow>
          if t = ''gene''
          then Inr (acc1\<lparr>node_color := node_color acc1 @ [''orange''],
                         node_border_color := node_border_color acc1 @ [''black'']\<rparr>)
          else Inr (acc1\<lparr>node_color := node_color acc1 @ [''lightgreen''],
                         node_border_color := node_border_color acc1 @ [te_border_color d]\<rparr>))))"

fun node_loop :: "graph \<Rightarrow> positions \<Rightarrow> node_lists \<Rightarrow> string list \<Rightarrow> error + node_lists" where
  "node_loop G pos acc [] = Inr acc"
| "node_loop G pos acc (node # ns) =
     (case node_step G pos acc node of Inl err \<Rightarrow> Inl err | Inr acc' \<Rightarrow> node_loop G pos acc' ns)"

definition node_trace :: "node_lists \<Rightarrow> marker_scatter" where
  "node_trace l =
     \<lparr>ms_x = node_x l, ms_y = node_y l, ms_mode = ''markers+text'', ms_text = node_text l,
      ms_textposition = ''top center'', ms_hoverinfo = ''text'', ms_marker_size = 15,
      ms_marker_color = node_color l, ms_marker_line_width = 3,
      ms_marker_line_color = node_border_color l, ms_textfont_color = ''black''\<rparr>"

definition no_nodes :: node_lists where
  "no_nodes = \<lparr>node_x = [], node_y = [], node_text = [], node_color = [], node_border_color = []\<rparr>"

definition render :: "graph \<Rightarrow> positions \<Rightarrow> error + figure" where
  "render G pos =
     (case edge_loop pos (edges G) of Inl err \<Rightarrow> Inl err | Inr edge_trace \<Rightarrow>
      (case node_loop G pos no_nodes (nodes G) of
         Inl err \<Rightarrow> Inl err
       | Inr l \<Rightarrow> Inr \<lparr>fig_data = map Lines edge_trace @ [Markers (node_trace l)],
                       fig_title = ''Correlation Network'', fig_width = 700, fig_height = 700\<rparr>))"

text \<open>What the chart draws: the line traces, and the points of the marker traces.\<close>

fun line_traces :: "trace list \<Rightarrow> line_scatter list" where
  "line_traces [] = []"
| "line_traces (Lines t # ts) = t # line_traces ts"
| "line_traces (Markers m # ts) = line_traces ts"

fun marker_points :: "trace list \<Rightarrow> (real \<times> real) list" where
  "marker_points [] = []"
| "marker_points (Lines t # ts) = marker_points ts"
| "marker_points (Markers m # ts) = zip (ms_x m) (ms_y m) @ marker_points ts"

text \<open>
  A string that ends in a point and two decimal digits, after a non-empty run of digits
  with an optional sign.
\<close>

definition is_digit :: "char \<Rightarrow> bool" where
  "is_digit c \<longleftrightarrow> c \<in> set ''0123456789''"

definition two_decimals :: "string \<Rightarrow> bool" where
  "two_decimals s =
     (case rev s of
        d2 # d1 # dot # ip \<Rightarrow>
          is_digit d2 \<and> is_digit d1 \<and> dot = CHR ''.'' \<and>
          (let ds = (case rev ip of c # cs \<Rightarrow> if c = CHR ''-'' then cs else c # cs | [] \<Rightarrow> [])
           in ds \<noteq> [] \<and> list_all is_digit ds)
      | _ \<Rightarrow> False)"

text \<open>
  Reading a printed number back: the digits of the string, taken as hundredths, with the
  sign of a leading minus. The value of a finite float, for comparison.
\<close>

definition digit_value :: "char \<Rightarrow> nat" where
  "digit_value c = of_char c - 48"

definition read_nat :: "string \<Rightarrow> nat" where
  "read_nat s = foldl (\<lambda>n c. 10 * n + digit_value c) 0 s"

definition read_2f :: "string \<Rightarrow> real" where
  "read_2f s =
     (if s \<noteq> [] \<and> hd s = CHR ''-'' then - 1 else 1) * real (read_nat (filter is_digit s)) / 100"

definition is_finite :: "pyfloat \<Rightarrow> bool" where
  "is_finite w = (case w of Finite x \<Rightarrow> True | MinusZero \<Rightarrow> True | _ \<Rightarrow> False)"

definition float_value :: "pyfloat \<Rightarrow> real" where
  "float_value w = (case w of Finite x \<Rightarrow> x | _ \<Rightarrow> 0)"

text \<open>A float lies midway between two neighbouring two-decimal numbers.\<close>

definition midway :: "pyfloat \<Rightarrow> bool" where
  "midway w \<longleftrightarrow> \<bar>float_value w\<bar> * 100 - of_int \<lfloor>\<bar>float_value w\<bar> * 100\<rfloor> = 1 / 2"

text \<open>
  Tables for the renderer: coefficients that need rounding, one of them midway, and a
  record whose coefficient cell was empty.
\<close>

definition rounding_records :: "corr_row list" where
  "rounding_records =
     [\<lparr>krab_znf = ''TF1'', te_gene = ''L1PA2'', coef = Finite 0.125, exp_col = ''up-regulated''\<rparr>,
      \<lparr>krab_znf = ''TF1'', te_gene = ''AluSx'', coef = Finite (-0.3456), exp_col = ''down-regulated''\<rparr>]"

definition empty_coef_records :: "corr_row list" where
  "empty_coef_records =
     [\<lparr>krab_znf = ''TF1'', te_gene = ''L1PA2'', coef = NotANumber, exp_col = ''up-regulated''\<rparr>]"

definition node_exp :: "graph \<Rightarrow> string \<Rightarrow> string option" where
  "node_exp G n = (case node_attr G n of None \<Rightarrow> None | Some d \<Rightarrow> map_of d ''exp'')"

text \<open>The colour rules of the renderer as the specification states them, per node.\<close>

definition fill_rule :: "graph \<Rightarrow> string \<Rightarrow> string" where
  "fill_rule G n = (if node_type G n = Some ''gene'' then ''orange'' else ''lightgreen'')"

definition border_rule :: "graph \<Rightarrow> string \<Rightarrow> string" where
  "border_rule G n =
     (if node_type G n = Some ''gene'' then ''black''
      else if node_exp G n = Some ''up-regulated'' then custom_red else custom_blue)"

text \<open>Positions for the three nodes of the example.\<close>

definition example_pos :: positions where
  "example_pos = map_of [(''TF1'', (0, 0)), (''L1PA2'', (1, 0)), (''AluSx'', (0, 1))]"

text \<open>
  Stand-ins for the numeric algorithms of the layout library: two that always raise, and
  one that puts the nodes on a line. The table below has one record whose gene and TE
  symbol coincide, so its graph has one node.
\<close>

definition failing_solver :: "graph \<Rightarrow> error + coordinates" where
  "failing_solver H = Inl (LayoutError ''did not converge'')"

definition failing_seeded_solver :: "graph \<Rightarrow> nat \<Rightarrow> error + coordinates" where
  "failing_seeded_solver H seed = Inl (LayoutError ''did not converge'')"

definition line_solver :: "graph \<Rightarrow> nat \<Rightarrow> error + coordinates" where
  "line_solver H seed = Inr (\<lambda>i. (real i, real seed))"

definition self_loop_records :: "corr_row list" where
  "self_loop_records =
     [\<lparr>krab_znf = ''L1PA2'', te_gene = ''L1PA2'', coef = Finite (-0.5), exp_col = ''up-regulated''\<rparr>]"

section \<open>Tabular dashboards (app_previous.py, utils)\<close>

subsection \<open>Data frames\<close>

text \<open>
  A cell of a pandas column: a string, a finite number, the missing value \<^verbatim>\<open>NaN\<close>, or
  one of the two infinities of a float column. A data frame is its list of column names
  and its rows, each row a dictionary from column name to cell with the columns as keys.
  Arithmetic on finite numbers is exact, and an integer cell is an integral number.
\<close>

datatype cell = Str string | Num real | NaN | PosInf | NegInf

type_synonym row = "(string \<times> cell) list"

record dataframe =
  columns :: "string list"
  rows :: "row list"


text \<open>\<^verbatim>\<open>df[mask]\<close> with a mask computed row by row.\<close>

definition select_rows :: "(row \<Rightarrow> bool) \<Rightarrow> dataframe \<Rightarrow> dataframe" where
  "select_rows keep df = df\<lparr>rows := filter keep (rows df)\<rparr>"


definition map_column :: "string \<Rightarrow> (cell \<Rightarrow> cell) \<Rightarrow> dataframe \<Rightarrow> dataframe" where
  "map_column col f df = df\<lparr>rows := map (AList.map_entry col f) (rows df)\<rparr>"

definition rename_columns :: "(string \<Rightarrow> string) \<Rightarrow> dataframe \<Rightarrow> dataframe" where
  "rename_columns f df =
     \<lparr>columns = map f (columns df), rows = map (map (\<lambda>(k, v). (f k, v))) (rows df)\<rparr>"

subsection \<open>The CSV loader\<close>













































subsection \<open>Filters of the tabular dashboards\<close>


















definition numeric_column :: "string \<Rightarrow> dataframe \<Rightarrow> bool" where
  "numeric_column col df \<longleftrightarrow>
     col \<in> set (columns df) \<and>
     list_all (\<lambda>r. case map_of r col of Some (Num x) \<Rightarrow> True | _ \<Rightarrow> False) (rows df)"







subsection \<open>Strip plot (utils/swarmplot.py)\<close>

text \<open>Elementwise \<^verbatim>\<open>+\<close> and \<^verbatim>\<open>/ 2\<close> on cells: a string against a number raises.\<close>

definition cell_add :: "cell \<Rightarrow> cell \<Rightarrow> error + cell" where
  "cell_add a b =
     (case (a, b) of
        (Num x, Num y) \<Rightarrow> Inr (Num (x + y))
      | (Str s, Str t) \<Rightarrow> Inr (Str (s @ t))
      | (Str s, _) \<Rightarrow> Inl (TypeError ''+'')
      | (_, Str t) \<Rightarrow> Inl (TypeError ''+'')
      | (NaN, _) \<Rightarrow> Inr NaN
      | (_, NaN) \<Rightarrow> Inr NaN
      | (PosInf, NegInf) \<Rightarrow> Inr NaN
      | (NegInf, PosInf) \<Rightarrow> Inr NaN
      | (PosInf, _) \<Rightarrow> Inr PosInf
      | (_, PosInf) \<Rightarrow> Inr PosInf
      | _ \<Rightarrow> Inr NegInf)"

definition cell_half :: "cell \<Rightarrow> error + cell" where
  "cell_half a =
     (case a of Num x \<Rightarrow> Inr (Num (x / 2)) | Str s \<Rightarrow> Inl (TypeError ''/'') | _ \<Rightarrow> Inr a)"

definition midpoint_cell :: "row \<Rightarrow> error + cell" where
  "midpoint_cell r =
     (case map_of r ''START'' of None \<Rightarrow> Inl (KeyError ''START'')
      | Some a \<Rightarrow>
          (case map_of r ''END'' of None \<Rightarrow> Inl (KeyError ''END'')
           | Some b \<Rightarrow> (case cell_add a b of Inl e \<Rightarrow> Inl e | Inr s \<Rightarrow> cell_half s)))"

fun midpoints :: "row list \<Rightarrow> error + cell list" where
  "midpoints [] = Inr []"
| "midpoints (r # rs) =
     (case midpoint_cell r of Inl e \<Rightarrow> Inl e
      | Inr m \<Rightarrow> (case midpoints rs of Inl e \<Rightarrow> Inl e | Inr ms \<Rightarrow> Inr (m # ms)))"

text \<open>\<^verbatim>\<open>df[col] = values\<close>: an existing column is overwritten in place, a new one appended.\<close>

definition assign_column :: "string \<Rightarrow> cell list \<Rightarrow> dataframe \<Rightarrow> dataframe" where
  "assign_column col vals df =
     \<lparr>columns = (if col \<in> set (columns df) then columns df else columns df @ [col]),
      rows = map (\<lambda>(r, v). AList.update col v r) (zip (rows df) vals)\<rparr>"

definition column_values :: "string \<Rightarrow> dataframe \<Rightarrow> cell list" where
  "column_values col df = List.map_filter (\<lambda>r. map_of r col) (rows df)"

definition chrom_order :: "string list" where
  "chrom_order = map (\<lambda>i. ''chr'' @ show_nat i) [1..<23] @ [''chrX'', ''chrY'']"

text \<open>\<^verbatim>\<open>pd.Categorical(values, categories=...)\<close>: a value outside the categories is undefined.\<close>

definition categorical :: "string list \<Rightarrow> cell \<Rightarrow> cell" where
  "categorical categories c = (case c of Str s \<Rightarrow> if s \<in> set categories then Str s else NaN | _ \<Rightarrow> NaN)"

text \<open>
  The figure of \<^verbatim>\<open>px.strip\<close>: the frame it was given, the columns of the two axes, and
  what \<^verbatim>\<open>update_traces\<close> and \<^verbatim>\<open>update_layout\<close> set.
\<close>

record strip_figure =
  sf_frame :: dataframe
  sf_x :: string
  sf_y :: string
  sf_jitter :: real
  sf_title :: string
  sf_categoryarray :: "string list"

definition plot_swarmplot :: "dataframe \<Rightarrow> error + strip_figure" where
  "plot_swarmplot df0 =
     (if ''START'' \<notin> set (columns df0) then Inl (KeyError ''START'')
      else if ''END'' \<notin> set (columns df0) then Inl (KeyError ''END'')
      else (case midpoints (rows df0) of Inl e \<Rightarrow> Inl e
            | Inr ms \<Rightarrow>
                let df = assign_column ''midpoint'' ms df0 in
                if ''CHROM'' \<notin> set (columns df) then Inl (KeyError ''CHROM'')
                else
                  let chrom_present = filter (\<lambda>c. Str c \<in> set (column_values ''CHROM'' df)) chrom_order;
                      df' = map_column ''CHROM'' (categorical chrom_present) df
                  in Inr \<lparr>sf_frame = df', sf_x = ''midpoint'', sf_y = ''CHROM'', sf_jitter = 0.3,
                          sf_title = ''Distribution of Midpoints by Chromosome'',
                          sf_categoryarray = chrom_present\<rparr>))"

text \<open>
  The points the chart positions: plotly places a row when both its coordinates are
  defined, and a row whose category is undefined has no place on the categorical axis.
\<close>

definition strip_points :: "strip_figure \<Rightarrow> (real \<times> string) list" where
  "strip_points fig =
     List.map_filter
       (\<lambda>r. case (map_of r (sf_x fig), map_of r (sf_y fig)) of
               (Some (Num x), Some (Str c)) \<Rightarrow> Some (x, c)
             | _ \<Rightarrow> None)
       (rows (sf_frame fig))"

text \<open>Per row, in the words of the claim: the standard labels, the midpoint, the label.\<close>

definition standard_chrom :: "row \<Rightarrow> bool" where
  "standard_chrom r = (case map_of r ''CHROM'' of Some (Str c) \<Rightarrow> c \<in> set chrom_order | _ \<Rightarrow> False)"

definition row_midpoint :: "row \<Rightarrow> real" where
  "row_midpoint r =
     (case (map_of r ''START'', map_of r ''END'') of
        (Some (Num s), Some (Num e)) \<Rightarrow> (s + e) / 2
      | _ \<Rightarrow> 0)"

definition row_label :: "row \<Rightarrow> string" where
  "row_label r = (case map_of r ''CHROM'' of Some (Str c) \<Rightarrow> c | _ \<Rightarrow> [])"

definition has_column :: "string \<Rightarrow> dataframe \<Rightarrow> bool" where
  "has_column col df \<longleftrightarrow>
     col \<in> set (columns df) \<and> list_all (\<lambda>r. map_of r col \<noteq> None) (rows df)"

text \<open>A table of the second dashboard: two hits on standard chromosomes, one on a scaffold.\<close>

definition motif_table :: dataframe where
  "motif_table =
     \<lparr>columns = [''CHROM'', ''MOTIF'', ''TE'', ''FAMILY'', ''CLASS'', ''SPECIES'', ''GENE'',
                 ''START'', ''END''],
      rows = [[(''CHROM'', Str ''chr2''), (''MOTIF'', Str ''MA1987.1''), (''TE'', Str ''L1PA8A''),
               (''FAMILY'', Str ''L1''), (''CLASS'', Str ''LINE''), (''SPECIES'', Str ''Human''),
               (''GENE'', Str ''ZNF91''), (''START'', Num 100), (''END'', Num 121)],
              [(''CHROM'', Str ''chrUn_gl000220''), (''MOTIF'', Str ''MA1987.1''), (''TE'', Str ''AluSx''),
               (''FAMILY'', Str ''Alu''), (''CLASS'', Str ''SINE''), (''SPECIES'', Str ''Human''),
               (''GENE'', Str ''ZNF91''), (''START'', Num 10), (''END'', Num 31)],
              [(''CHROM'', Str ''chr1''), (''MOTIF'', Str ''MA1988.2''), (''TE'', Str ''L1PA2''),
               (''FAMILY'', Str ''L1''), (''CLASS'', Str ''LINE''), (''SPECIES'', Str ''Human''),
               (''GENE'', Str ''ZNF93''), (''START'', Num 7), (''END'', Num 28)]]\<rparr>"


section \<open>Properties\<close>

subsection \<open>Row filter\<close>





subsection \<open>Graph container and builder\<close>

lemma graph_ok_empty: "graph_ok empty_graph"
  by (simp add: graph_ok_def empty_graph_def)

lemma list_all_update:
  "list_all (\<lambda>(n, nb). P nb) al \<Longrightarrow> P v \<Longrightarrow> list_all (\<lambda>(n, nb). P nb) (AList.update k v al)"
  by (induction al) (auto)

lemma list_all_map_entry:
  "list_all (\<lambda>(n, nb). P nb) al \<Longrightarrow> (\<And>x. P x \<Longrightarrow> P (f x)) \<Longrightarrow> list_all (\<lambda>(n, nb). P nb) (AList.map_entry k f al)"
  by (induction al) (auto)

lemma keys_map_entry: "map fst (AList.map_entry k f al) = map fst al"
  by (induction al) auto

lemma keys_update: "fst ` set (AList.update k v al) = insert k (fst ` set al)"
  by (induction al) auto

lemma keys_map_entry': "fst ` set (AList.map_entry k f al) = fst ` set al"
  by (induction al) auto

lemma in_keys_iff: "k \<in> fst ` set al \<longleftrightarrow> map_of al k \<noteq> None"
  by (simp add: map_of_eq_None_iff)

lemma g_node_add_node:
  "g_node (add_node n a G) =
     AList.update n (dict_update (case map_of (g_node G) n of None \<Rightarrow> [] | Some d \<Rightarrow> d) a) (g_node G)"
  by (simp add: add_node_def split: option.splits)

lemma g_adj_add_node:
  "g_adj (add_node n a G) =
     (if n \<in> fst ` set (g_node G) then g_adj G else AList.update n [] (g_adj G))"
  by (simp add: add_node_def in_keys_iff split: option.splits)

lemma g_node_ensure_node:
  "g_node (ensure_node n G) =
     (if n \<in> fst ` set (g_node G) then g_node G else AList.update n [] (g_node G))"
  by (simp add: ensure_node_def in_keys_iff split: option.splits)

lemma g_adj_ensure_node:
  "g_adj (ensure_node n G) =
     (if n \<in> fst ` set (g_node G) then g_adj G else AList.update n [] (g_adj G))"
  by (simp add: ensure_node_def in_keys_iff split: option.splits)

lemma graph_ok_add_node: "graph_ok G \<Longrightarrow> graph_ok (add_node n a G)"
  by (auto simp: graph_ok_def g_node_add_node g_adj_add_node distinct_update keys_update
        list_all_update)

lemma graph_ok_ensure_node: "graph_ok G \<Longrightarrow> graph_ok (ensure_node n G)"
  by (auto simp: graph_ok_def g_node_ensure_node g_adj_ensure_node distinct_update keys_update
        list_all_update)

lemma graph_ok_add_edge: "graph_ok G \<Longrightarrow> graph_ok (add_edge u v w G)"
  using graph_ok_ensure_node[of "ensure_node u G" v, OF graph_ok_ensure_node[of G u]]
  by (auto simp: graph_ok_def add_edge_def Let_def keys_map_entry keys_map_entry' distinct_update
      intro!: list_all_map_entry)


lemma nodes_add_node: "set (nodes (add_node n a G)) = insert n (set (nodes G))"
  by (simp add: nodes_def g_node_add_node keys_update)

lemma nodes_ensure_node: "set (nodes (ensure_node n G)) = insert n (set (nodes G))"
  by (auto simp add: nodes_def g_node_ensure_node keys_update)

lemma g_node_add_edge: "g_node (add_edge u v w G) = g_node (ensure_node v (ensure_node u G))"
  by (simp add: add_edge_def Let_def)

lemma nodes_add_edge: "set (nodes (add_edge u v w G)) = insert u (insert v (set (nodes G)))"
  using nodes_ensure_node[of v "ensure_node u G"] nodes_ensure_node[of u G]
  by (auto simp: nodes_def g_node_add_edge)

lemma node_attr_add_node:
  "node_attr (add_node n a G) m =
     (if m = n then Some (dict_update (case node_attr G n of None \<Rightarrow> [] | Some d \<Rightarrow> d) a)
      else node_attr G m)"
  by (simp add: node_attr_def g_node_add_node update_conv')

lemma node_attr_ensure_node:
  "node_attr (ensure_node n G) m =
     (if m = n \<and> node_attr G n = None then Some [] else node_attr G m)"
  by (auto simp: node_attr_def g_node_ensure_node update_conv' in_keys_iff)

lemma node_attr_add_edge:
  "node_attr (add_edge u v w G) m =
     (if node_attr G m = None \<and> (m = u \<or> m = v) then Some [] else node_attr G m)"
  unfolding node_attr_def[of "add_edge u v w G"] g_node_add_edge node_attr_def[symmetric]
  by (auto simp: node_attr_ensure_node)

lemma graph_ok_adj_None: "graph_ok G \<Longrightarrow> map_of (g_adj G) n = None \<longleftrightarrow> map_of (g_node G) n = None"
  by (simp add: graph_ok_def map_of_eq_None_iff)

lemma adj_weight_add_node:
  assumes "graph_ok G"
  shows "adj_weight (add_node n a G) x y = adj_weight G x y"
proof (cases "map_of (g_node G) n")
  case None
  then have "map_of (g_adj G) n = None" using assms by (simp add: graph_ok_adj_None)
  with None show ?thesis
    by (simp add: adj_weight_def nbr_weight_def add_node_def update_conv')
next
  case (Some d)
  then show ?thesis by (simp add: adj_weight_def add_node_def)
qed

lemma adj_weight_ensure_node:
  assumes "graph_ok G"
  shows "adj_weight (ensure_node n G) x y = adj_weight G x y"
proof (cases "map_of (g_node G) n")
  case None
  then have "map_of (g_adj G) n = None" using assms by (simp add: graph_ok_adj_None)
  with None show ?thesis
    by (simp add: adj_weight_def nbr_weight_def ensure_node_def update_conv')
next
  case (Some d)
  then show ?thesis by (simp add: adj_weight_def ensure_node_def)
qed

lemma nbr_weight_map_entry:
  assumes "map_of al k = Some nb"
  shows "nbr_weight (AList.map_entry k (AList.update j w) al) x y =
     (if x = k \<and> y = j then Some w else nbr_weight al x y)"
  using assms by (simp add: nbr_weight_def map_of_map_entry update_conv')

lemma if_two: "(if A then s else if B then s else t) = (if B \<or> A then s else t)"
  by (cases A; cases B; simp only: if_True if_False simp_thms)

lemma adj_weight_add_edge:
  assumes "graph_ok G"
  shows "adj_weight (add_edge u v w G) x y =
     (if joins u v x y then Some w else adj_weight G x y)"
proof -
  let ?G' = "ensure_node v (ensure_node u G)"
  let ?adj1 = "AList.map_entry u (AList.update v w) (g_adj ?G')"
  have ok: "graph_ok (ensure_node u G)" "graph_ok ?G'"
    using assms by (simp_all add: graph_ok_ensure_node)
  have "node_attr ?G' u \<noteq> None" "node_attr ?G' v \<noteq> None"
    by (simp_all add: node_attr_ensure_node)
  then have "map_of (g_adj ?G') u \<noteq> None" and "map_of (g_adj ?G') v \<noteq> None"
    using ok(2) by (simp_all add: graph_ok_adj_None node_attr_def)
  then obtain nu nv where ku: "map_of (g_adj ?G') u = Some nu" and kv: "map_of (g_adj ?G') v = Some nv"
    by auto
  obtain nv' where kv': "map_of ?adj1 v = Some nv'"
    using kv ku by (cases "v = u") (simp_all add: map_of_map_entry)
  have eq: "nbr_weight (g_adj ?G') x y = adj_weight G x y"
    using assms ok adj_weight_ensure_node[of G u x y] adj_weight_ensure_node[of "ensure_node u G" v x y]
    by (simp add: adj_weight_def)
  have 1: "adj_weight (add_edge u v w G) x y = nbr_weight (AList.map_entry v (AList.update u w) ?adj1) x y"
    by (simp add: adj_weight_def add_edge_def Let_def)
  have 2: "nbr_weight (AList.map_entry v (AList.update u w) ?adj1) x y
      = (if x = v \<and> y = u then Some w else nbr_weight ?adj1 x y)"
    by (rule nbr_weight_map_entry[OF kv'])
  have 3: "nbr_weight ?adj1 x y = (if x = u \<and> y = v then Some w else nbr_weight (g_adj ?G') x y)"
    by (rule nbr_weight_map_entry[OF ku])
  show ?thesis
    unfolding 1 2 3 eq joins_def by (rule if_two)
qed


lemma build_graph_snoc: "build_graph (df @ [r]) = add_row (build_graph df) r"
  by (simp add: build_graph_def)

lemma graph_ok_add_row: "graph_ok G \<Longrightarrow> graph_ok (add_row G r)"
  by (simp add: add_row_def Let_def graph_ok_add_edge graph_ok_add_node)

lemma graph_ok_build: "graph_ok (build_graph df)"
  by (induction df rule: rev_induct)
     (simp_all add: build_graph_snoc graph_ok_add_row, simp add: build_graph_def graph_ok_empty)

lemma nodes_add_row: "set (nodes (add_row G r)) = insert (krab_znf r) (insert (te_gene r) (set (nodes G)))"
  by (auto simp: add_row_def Let_def nodes_add_edge nodes_add_node)

lemma nodes_build: "set (nodes (build_graph df)) = gene_ids df \<union> te_ids df"
proof (induction df rule: rev_induct)
  case Nil
  then show ?case by (simp add: build_graph_def empty_graph_def nodes_def gene_ids_def te_ids_def)
next
  case (snoc r df)
  then show ?case by (auto simp: build_graph_snoc nodes_add_row gene_ids_def te_ids_def)
qed

lemma adj_weight_add_row:
  "graph_ok G \<Longrightarrow> adj_weight (add_row G r) x y =
     (if joins (krab_znf r) (te_gene r) x y then Some (coef r) else adj_weight G x y)"
  by (simp add: add_row_def Let_def adj_weight_add_edge adj_weight_add_node graph_ok_add_node)

lemma adj_weight_build: "adj_weight (build_graph df) x y = last_coef df x y"
proof (induction df rule: rev_induct)
  case Nil
  then show ?case
    by (simp add: build_graph_def empty_graph_def adj_weight_def nbr_weight_def last_coef_def)
next
  case (snoc r df)
  then show ?case
    by (simp add: build_graph_snoc adj_weight_add_row graph_ok_build last_coef_def)
qed

lemma node_type_add_row:
  "node_type (add_row G r) n =
     (if n = te_gene r then Some ''te'' else if n = krab_znf r then Some ''gene'' else node_type G n)"
  by (auto simp: add_row_def Let_def node_type_def node_attr_add_edge node_attr_add_node
      dict_update_def update_conv' split: option.splits)


lemma edges_from_sound:
  "(u, v, w) \<in> set (edges_from seen adj) \<Longrightarrow>
     \<exists>nb. (u, nb) \<in> set adj \<and> (v, w) \<in> set nb \<and> v \<notin> set seen"
  by (induction seen adj rule: edges_from.induct) auto

lemma edges_from_first: "(u, v, w) \<in> set (edges_from seen adj) \<Longrightarrow> u \<in> fst ` set adj"
  by (induction seen adj rule: edges_from.induct) force+

lemma edges_from_second: "(u, v, w) \<in> set (edges_from seen adj) \<Longrightarrow> v \<notin> set seen"
  by (induction seen adj rule: edges_from.induct) auto

lemma edges_sound:
  assumes "graph_ok G" and "(u, v, w) \<in> set (edges G)"
  shows "adj_weight G u v = Some w"
proof -
  from assms(2) obtain nb where nb: "(u, nb) \<in> set (g_adj G)" "(v, w) \<in> set nb"
    unfolding edges_def by (blast dest: edges_from_sound)
  from assms(1) have d: "distinct (map fst (g_adj G))" by (simp add: graph_ok_def)
  with nb(1) have 1: "map_of (g_adj G) u = Some nb" by simp
  from assms(1) nb(1) have "distinct (map fst nb)"
    by (auto simp: graph_ok_def list_all_iff)
  with nb(2) have "map_of nb v = Some w" by simp
  with 1 show ?thesis by (simp add: adj_weight_def nbr_weight_def)
qed

lemma ends_head: "map ends (map (\<lambda>(nbr, d). (n, nbr, d)) xs) = map (\<lambda>p. {n, fst p}) xs"
  by (induction xs) (auto simp: ends_def)

lemma ends_head_distinct:
  "distinct (map fst nbrs) \<Longrightarrow>
     distinct (map ends (map (\<lambda>(nbr, d). (n, nbr, d)) (filter P nbrs)))"
  unfolding ends_head
proof (induction nbrs)
  case Nil
  then show ?case by simp
next
  case (Cons p nbrs)
  have "{n, fst p} \<noteq> {n, fst q}" if "q \<in> set nbrs" for q
  proof
    assume "{n, fst p} = {n, fst q}"
    then have "fst p = fst q" by (auto simp: doubleton_eq_iff)
    with that Cons.prems show False by auto
  qed
  then show ?case using Cons by auto
qed

lemma edges_from_simple:
  "distinct (map fst adj) \<Longrightarrow> list_all (\<lambda>(n, nb). distinct (map fst nb)) adj \<Longrightarrow>
     distinct (map ends (edges_from seen adj))"
proof (induction seen adj rule: edges_from.induct)
  case (1 seen)
  then show ?case by simp
next
  case (2 seen n nbrs rest)
  have rest: "distinct (map ends (edges_from (n # seen) rest))"
    using 2 by simp
  have head: "distinct (map ends (map (\<lambda>(nbr, d). (n, nbr, d)) (filter (\<lambda>(nbr, d). nbr \<notin> set seen) nbrs)))"
    using "2.prems" by (intro ends_head_distinct) simp
  have out: "n \<notin> ends e" if "e \<in> set (edges_from (n # seen) rest)" for e
  proof -
    obtain u v w where e: "e = (u, v, w)" by (cases e)
    from that e have "u \<in> fst ` set rest" "v \<notin> set (n # seen)"
      by (auto dest: edges_from_first edges_from_second)
    with "2.prems"(1) e show ?thesis by (auto simp: ends_def)
  qed
  let ?hd = "map (\<lambda>(nbr, d). (n, nbr, d)) (filter (\<lambda>(nbr, d). nbr \<notin> set seen) nbrs)"
  have inn: "n \<in> ends e" if "e \<in> set ?hd" for e
    using that by (auto simp: ends_def)
  have disj: "set (map ends ?hd) \<inter> set (map ends (edges_from (n # seen) rest)) = {}"
  proof (rule ccontr)
    assume "\<not> ?thesis"
    then obtain s where "s \<in> ends ` set ?hd" "s \<in> ends ` set (edges_from (n # seen) rest)"
      unfolding set_map[of ends] by blast
    then obtain e1 e2 where "e1 \<in> set ?hd" "s = ends e1" "e2 \<in> set (edges_from (n # seen) rest)" "s = ends e2"
      by blast
    with inn[of e1] out[of e2] show False by simp
  qed
  have "edges_from seen ((n, nbrs) # rest) = ?hd @ edges_from (n # seen) rest" by simp
  then show ?case using head rest disj by (simp only: map_append distinct_append) 
qed

lemma edges_simple: "graph_ok G \<Longrightarrow> distinct (map ends (edges G))"
  by (simp add: edges_def graph_ok_def edges_from_simple)


lemma nbr_weight_Cons:
  "nbr_weight ((n, nb) # rest) u v = (if u = n then map_of nb v else nbr_weight rest u v)"
  by (simp add: nbr_weight_def)

lemma nbr_weight_key: "nbr_weight adj u v = Some w \<Longrightarrow> u \<in> fst ` set adj"
  by (auto simp: nbr_weight_def in_keys_iff split: option.splits)

lemma edges_from_complete:
  assumes "distinct (map fst adj)" and "set seen \<inter> fst ` set adj = {}"
    and "nbr_weight adj u v = Some w" and "nbr_weight adj v u = Some w"
  shows "(u, v, w) \<in> set (edges_from seen adj) \<or> (v, u, w) \<in> set (edges_from seen adj)"
  using assms
proof (induction seen adj rule: edges_from.induct)
  case (1 seen)
  then show ?case by (simp add: nbr_weight_def)
next
  case (2 seen n nbrs rest)
  have ku: "u \<in> fst ` set ((n, nbrs) # rest)" and kv: "v \<in> fst ` set ((n, nbrs) # rest)"
    using "2.prems"(3,4) by (blast dest: nbr_weight_key)+
  with "2.prems"(2) have us: "u \<notin> set seen" and vs: "v \<notin> set seen" by blast+
  show ?case
  proof (cases "u = n")
    case True
    with "2.prems"(3) have "(v, w) \<in> set nbrs"
      by (auto simp: nbr_weight_Cons dest: map_of_SomeD)
    with True vs show ?thesis by force
  next
    case un: False
    show ?thesis
    proof (cases "v = n")
      case True
      with "2.prems"(4) have "(u, w) \<in> set nbrs"
        by (auto simp: nbr_weight_Cons dest: map_of_SomeD)
      with True us show ?thesis by force
    next
      case False
      have "(u, v, w) \<in> set (edges_from (n # seen) rest) \<or> (v, u, w) \<in> set (edges_from (n # seen) rest)"
      proof (rule "2.IH")
        show "distinct (map fst rest)" using "2.prems"(1) by simp
        show "set (n # seen) \<inter> fst ` set rest = {}" using "2.prems"(1,2) by auto
        show "nbr_weight rest u v = Some w" using "2.prems"(3) un by (simp add: nbr_weight_Cons)
        show "nbr_weight rest v u = Some w" using "2.prems"(4) False by (simp add: nbr_weight_Cons)
      qed
      then show ?thesis by auto
    qed
  qed
qed

lemma edges_complete:
  assumes "graph_ok G" and "adj_weight G u v = Some w" and "adj_weight G v u = Some w"
  shows "(u, v, w) \<in> set (edges G) \<or> (v, u, w) \<in> set (edges G)"
  unfolding edges_def
  using assms by (intro edges_from_complete) (simp_all add: graph_ok_def adj_weight_def)

lemma filter_single:
  "distinct (map f xs) \<Longrightarrow> x \<in> set xs \<Longrightarrow> filter (\<lambda>y. f y = f x) xs = [x]"
proof (induction xs)
  case Nil
  then show ?case by simp
next
  case (Cons a xs)
  show ?case
  proof (cases "a = x")
    case True
    with Cons.prems have "f x \<notin> f ` set xs" by simp
    then have "\<forall>y \<in> set xs. f y \<noteq> f x" by (metis imageI)
    then have "filter (\<lambda>y. f y = f x) xs = []" by (simp add: filter_empty_conv)
    with True show ?thesis by simp
  next
    case False
    with Cons.prems have "x \<in> set xs" "f a \<noteq> f x" by auto
    with Cons show ?thesis by simp
  qed
qed

lemma joins_sym: "joins u v x y \<Longrightarrow> joins u v y x"
  unfolding joins_def by blast

lemma last_coef_sym: "last_coef df x y = last_coef df y x"
proof -
  have "(\<lambda>r. joins (krab_znf r) (te_gene r) x y) = (\<lambda>r. joins (krab_znf r) (te_gene r) y x)"
    by (rule ext) (blast dest: joins_sym)
  then show ?thesis unfolding last_coef_def by (rule arg_cong)
qed

lemma find_app:
  "find P (xs @ ys) = (case find P xs of None \<Rightarrow> find P ys | Some x \<Rightarrow> Some x)"
  by (induction xs) simp_all

lemma last_coef_last:
  assumes "\<forall>r' \<in> set df2. \<not> joins (krab_znf r') (te_gene r') (krab_znf r) (te_gene r)"
  shows "last_coef (df1 @ r # df2) (krab_znf r) (te_gene r) = Some (coef r)"
proof -
  have "find (\<lambda>r'. joins (krab_znf r') (te_gene r') (krab_znf r) (te_gene r)) (rev df2) = None"
    using assms by (simp add: find_None_iff)
  moreover have "joins (krab_znf r) (te_gene r) (krab_znf r) (te_gene r)"
    by (simp add: joins_def)
  ultimately show ?thesis by (simp add: last_coef_def find_app)
qed

lemma edge_weights_single:
  assumes "graph_ok G" and "adj_weight G x y = Some w" and "adj_weight G y x = Some w"
  shows "edge_weights G x y = [w]"
proof -
  from edges_complete[OF assms] obtain e where e: "e \<in> set (edges G)" "ends e = {x, y}" "(\<lambda>(u, v, w). w) e = w"
    by (auto simp: ends_def insert_commute)
  have "filter (\<lambda>e'. ends e' = ends e) (edges G) = [e]"
    using edges_simple[OF assms(1)] e(1) by (rule filter_single)
  with e show ?thesis by (simp add: edge_weights_def)
qed

lemma edge_weights_build:
  assumes "\<forall>r' \<in> set df2. \<not> joins (krab_znf r') (te_gene r') (krab_znf r) (te_gene r)"
  shows "edge_weights (build_graph (df1 @ r # df2)) (krab_znf r) (te_gene r) = [coef r]"
proof (rule edge_weights_single)
  show "graph_ok (build_graph (df1 @ r # df2))" by (rule graph_ok_build)
  show "adj_weight (build_graph (df1 @ r # df2)) (krab_znf r) (te_gene r) = Some (coef r)"
    using assms by (simp add: adj_weight_build last_coef_last)
  then show "adj_weight (build_graph (df1 @ r # df2)) (te_gene r) (krab_znf r) = Some (coef r)"
    by (simp add: adj_weight_build last_coef_sym)
qed


lemma gene_ids_snoc: "gene_ids (df @ [r]) = insert (krab_znf r) (gene_ids df)"
  by (simp add: gene_ids_def)

lemma te_ids_snoc: "te_ids (df @ [r]) = insert (te_gene r) (te_ids df)"
  by (simp add: te_ids_def)

lemma node_type_empty: "node_type (build_graph []) n = None"
  by (simp add: build_graph_def empty_graph_def node_type_def node_attr_def)

lemma node_type_build_gene:
  assumes "n \<notin> te_ids df"
  shows "node_type (build_graph df) n = (if n \<in> gene_ids df then Some ''gene'' else None)"
  using assms
proof (induction df rule: rev_induct)
  case Nil
  then show ?case by (simp add: node_type_empty gene_ids_def)
next
  case (snoc r df)
  from snoc.prems have "n \<notin> te_ids df" "n \<noteq> te_gene r"
    by (auto simp: te_ids_snoc)
  with snoc.IH show ?case
    by (simp add: build_graph_snoc node_type_add_row gene_ids_snoc)
qed

lemma node_type_build_te:
  assumes "n \<notin> gene_ids df"
  shows "node_type (build_graph df) n = (if n \<in> te_ids df then Some ''te'' else None)"
  using assms
proof (induction df rule: rev_induct)
  case Nil
  then show ?case by (simp add: node_type_empty te_ids_def)
next
  case (snoc r df)
  from snoc.prems have "n \<notin> gene_ids df" "n \<noteq> krab_znf r"
    by (auto simp: gene_ids_snoc)
  with snoc.IH show ?case
    by (simp add: build_graph_snoc node_type_add_row te_ids_snoc)
qed

lemma node_type_build_range:
  "node_type (build_graph df) n = Some k \<Longrightarrow> k = ''gene'' \<or> k = ''te''"
proof (induction df rule: rev_induct)
  case Nil
  then show ?case by (simp add: node_type_empty)
next
  case (snoc r df)
  then show ?case
    by (auto simp: build_graph_snoc node_type_add_row split: if_splits)
qed

lemma node_type_build_later:
  assumes "node_type (build_graph df) n = Some k"
    and "k = ''gene'' \<longrightarrow> n \<notin> te_ids df'"
    and "k = ''te'' \<longrightarrow> n \<notin> gene_ids df'"
  shows "node_type (build_graph (df @ df')) n = Some k"
  using assms(2,3)
proof (induction df' rule: rev_induct)
  case Nil
  then show ?case using assms(1) by simp
next
  case (snoc r df')
  from snoc.prems have p: "k = ''gene'' \<longrightarrow> n \<notin> te_ids df'" "k = ''te'' \<longrightarrow> n \<notin> gene_ids df'"
    and q: "k = ''gene'' \<longrightarrow> n \<noteq> te_gene r" "k = ''te'' \<longrightarrow> n \<noteq> krab_znf r \<or> n = te_gene r"
    by (auto simp: gene_ids_snoc te_ids_snoc)
  have "node_type (build_graph ((df @ df') @ [r])) n = Some k"
    using snoc.IH[OF p] q node_type_build_range[OF assms(1)]
    by (simp only: build_graph_snoc node_type_add_row) auto
  then show ?case by simp
qed

lemma distinct_nodes: "graph_ok G \<Longrightarrow> distinct (nodes G)"
  by (simp add: graph_ok_def nodes_def)

lemma length_nodes_build: "length (nodes (build_graph df)) = card (gene_ids df \<union> te_ids df)"
  using distinct_card[OF distinct_nodes[OF graph_ok_build[of df]]] by (simp add: nodes_build)

lemma find_SomeD: "find P xs = Some x \<Longrightarrow> x \<in> set xs \<and> P x"
  by (induction xs) (auto split: if_splits)

lemma last_coef_Some:
  assumes "last_coef df x y = Some w"
  shows "\<exists>r \<in> set df. joins (krab_znf r) (te_gene r) x y"
proof -
  from assms obtain r where "find (\<lambda>r. joins (krab_znf r) (te_gene r) x y) (rev df) = Some r"
    by (auto simp: last_coef_def)
  then have "r \<in> set df" "joins (krab_znf r) (te_gene r) x y"
    by (auto dest: find_SomeD)
  then show ?thesis by blast
qed

lemma edges_build_record:
  assumes "(u, v, w) \<in> set (edges (build_graph df))"
  shows "\<exists>r \<in> set df. joins (krab_znf r) (te_gene r) u v"
  using edges_sound[OF graph_ok_build assms] by (simp add: adj_weight_build last_coef_Some)

lemma edges_build_nodes:
  assumes "e \<in> set (edges (build_graph df))"
  shows "ends e \<subseteq> set (nodes (build_graph df))"
proof -
  obtain u v w where e: "e = (u, v, w)" by (cases e)
  with assms obtain r where "r \<in> set df" "joins (krab_znf r) (te_gene r) u v"
    by (blast dest: edges_build_record)
  then show ?thesis unfolding e nodes_build
    by (auto simp: ends_def joins_def gene_ids_def te_ids_def)
qed

lemma edges_build_kinds:
  assumes "(u, v, w) \<in> set (edges (build_graph df))"
    and "u \<notin> gene_ids df \<inter> te_ids df" and "v \<notin> gene_ids df \<inter> te_ids df"
  shows "(node_type (build_graph df) u = Some ''gene'' \<and> node_type (build_graph df) v = Some ''te'')
       \<or> (node_type (build_graph df) u = Some ''te'' \<and> node_type (build_graph df) v = Some ''gene'')"
proof -
  from assms(1) obtain r where r: "r \<in> set df" "joins (krab_znf r) (te_gene r) u v"
    by (blast dest: edges_build_record)
  then have g: "krab_znf r \<in> gene_ids df" and t: "te_gene r \<in> te_ids df"
    by (simp_all add: gene_ids_def te_ids_def)
  from r(2) consider "u = krab_znf r" "v = te_gene r" | "u = te_gene r" "v = krab_znf r"
    unfolding joins_def by blast
  then show ?thesis
  proof cases
    case 1
    with g t assms(2,3) have "u \<notin> te_ids df" "u \<in> gene_ids df" "v \<notin> gene_ids df" "v \<in> te_ids df"
      by blast+
    then show ?thesis by (simp add: node_type_build_gene node_type_build_te)
  next
    case 2
    with g t assms(2,3) have "v \<notin> te_ids df" "v \<in> gene_ids df" "u \<notin> gene_ids df" "u \<in> te_ids df"
      by blast+
    then show ?thesis by (simp add: node_type_build_gene node_type_build_te)
  qed
qed

text \<open>
  C2 (as amended). For every record table: no two reported edges join the same pair of
  nodes; both endpoints of every edge are nodes; the node count is the number of distinct
  identifiers used as gene or TE symbol, that is the number of distinct gene symbols plus
  the number of distinct TE symbols minus the number of identifiers used in both roles
  (so the plain sum when there is none); the record that is the last of the table to join
  its gene/TE pair gives the weight of the single edge between them; and every edge
  neither of whose endpoints is used in both roles has one endpoint of kind gene and one
  of kind te.
\<close>

theorem graph_builder_postconditions:
  "distinct (map ends (edges (build_graph df)))
   \<and> (\<forall>e \<in> set (edges (build_graph df)). ends e \<subseteq> set (nodes (build_graph df)))
   \<and> length (nodes (build_graph df)) = card (gene_ids df \<union> te_ids df)
   \<and> length (nodes (build_graph df)) + card (gene_ids df \<inter> te_ids df)
       = card (gene_ids df) + card (te_ids df)
   \<and> (\<forall>df1 r df2. df = df1 @ r # df2
         \<and> (\<forall>r' \<in> set df2. \<not> joins (krab_znf r') (te_gene r') (krab_znf r) (te_gene r))
        \<longrightarrow> edge_weights (build_graph df) (krab_znf r) (te_gene r) = [coef r])
   \<and> (gene_ids df \<inter> te_ids df = {} \<longrightarrow>
        length (nodes (build_graph df)) = card (gene_ids df) + card (te_ids df))
   \<and> (\<forall>(u, v, w) \<in> set (edges (build_graph df)).
        u \<notin> gene_ids df \<inter> te_ids df \<and> v \<notin> gene_ids df \<inter> te_ids df \<longrightarrow>
          (node_type (build_graph df) u = Some ''gene'' \<and> node_type (build_graph df) v = Some ''te'')
        \<or> (node_type (build_graph df) u = Some ''te'' \<and> node_type (build_graph df) v = Some ''gene''))"
proof -
  have simple: "distinct (map ends (edges (build_graph df)))"
    by (rule edges_simple[OF graph_ok_build])
  have inside: "\<forall>e \<in> set (edges (build_graph df)). ends e \<subseteq> set (nodes (build_graph df))"
    by (blast dest: edges_build_nodes)
  have count: "length (nodes (build_graph df)) = card (gene_ids df \<union> te_ids df)"
    by (rule length_nodes_build)
  have fin: "finite (gene_ids df)" "finite (te_ids df)"
    by (simp_all add: gene_ids_def te_ids_def)
  have general: "length (nodes (build_graph df)) + card (gene_ids df \<inter> te_ids df)
       = card (gene_ids df) + card (te_ids df)"
    using count card_Un_Int[OF fin] by simp
  have last: "\<forall>df1 r df2. df = df1 @ r # df2
         \<and> (\<forall>r' \<in> set df2. \<not> joins (krab_znf r') (te_gene r') (krab_znf r) (te_gene r))
        \<longrightarrow> edge_weights (build_graph df) (krab_znf r) (te_gene r) = [coef r]"
    by (auto simp: edge_weights_build)
  have sum: "gene_ids df \<inter> te_ids df = {} \<longrightarrow>
        length (nodes (build_graph df)) = card (gene_ids df) + card (te_ids df)"
    using general by auto
  have kinds: "\<forall>(u, v, w) \<in> set (edges (build_graph df)).
        u \<notin> gene_ids df \<inter> te_ids df \<and> v \<notin> gene_ids df \<inter> te_ids df \<longrightarrow>
          (node_type (build_graph df) u = Some ''gene'' \<and> node_type (build_graph df) v = Some ''te'')
        \<or> (node_type (build_graph df) u = Some ''te'' \<and> node_type (build_graph df) v = Some ''gene'')"
    using edges_build_kinds[of _ _ _ df] by blast
  from simple inside count general last sum kinds show ?thesis by (intro conjI)
qed

text \<open>
  An identifier used in both roles is one node, and it has the kind of its last use: in
  the table below \<^verbatim>\<open>L1PA2\<close> is the TE of the first record and the gene of the second,
  so the edge of the first record joins two gene nodes, and there are three nodes for two
  distinct gene symbols and two distinct TE symbols.
\<close>

theorem graph_builder_kinds_counterexample:
  "edges (build_graph (first_record @ later_record))
     = [(''ZNF91'', ''L1PA2'', Finite 0.8), (''L1PA2'', ''AluSx'', Finite (-0.3))]
   \<and> node_type (build_graph (first_record @ later_record)) ''ZNF91'' = Some ''gene''
   \<and> node_type (build_graph (first_record @ later_record)) ''L1PA2'' = Some ''gene''
   \<and> length (nodes (build_graph (first_record @ later_record))) = 3
   \<and> card (gene_ids (first_record @ later_record)) + card (te_ids (first_record @ later_record)) = 4"
  by code_simp

theorem graph_builder_postconditions_witness:
  "nodes (build_graph mixed_records) = [''ZNF91'', ''L1PA2'', ''AluSx'']
   \<and> edges (build_graph mixed_records)
       = [(''ZNF91'', ''L1PA2'', Finite 0.8), (''ZNF91'', ''AluSx'', Finite 0.4),
          (''L1PA2'', ''AluSx'', Finite (-0.3))]
   \<and> gene_ids mixed_records \<inter> te_ids mixed_records = {''L1PA2''}
   \<and> distinct (map ends (edges (build_graph mixed_records)))
   \<and> length (nodes (build_graph mixed_records)) + card (gene_ids mixed_records \<inter> te_ids mixed_records)
       = card (gene_ids mixed_records) + card (te_ids mixed_records)
   \<and> edge_weights (build_graph mixed_records) ''ZNF91'' ''AluSx'' = [Finite 0.4]
   \<and> node_type (build_graph mixed_records) ''ZNF91'' = Some ''gene''
   \<and> node_type (build_graph mixed_records) ''AluSx'' = Some ''te''
   \<and> gene_ids overwrite_records \<inter> te_ids overwrite_records = {}
   \<and> length (nodes (build_graph overwrite_records))
       = card (gene_ids overwrite_records) + card (te_ids overwrite_records)
   \<and> edges (build_graph overwrite_records)
       = [(''TF1'', ''L1PA2'', Finite 0.4), (''TF1'', ''AluSx'', Finite (-0.3))]
   \<and> edge_weights (build_graph overwrite_records) ''TF1'' ''L1PA2'' = [Finite 0.4]"
proof -
  note T = graph_builder_postconditions[of mixed_records]
  note T' = graph_builder_postconditions[of overwrite_records]
  have n: "nodes (build_graph mixed_records) = [''ZNF91'', ''L1PA2'', ''AluSx'']"
    by code_simp
  have e: "edges (build_graph mixed_records)
       = [(''ZNF91'', ''L1PA2'', Finite 0.8), (''ZNF91'', ''AluSx'', Finite 0.4),
          (''L1PA2'', ''AluSx'', Finite (-0.3))]"
    by code_simp
  have i: "gene_ids mixed_records \<inter> te_ids mixed_records = {''L1PA2''}"
    by code_simp
  from T have simple: "distinct (map ends (edges (build_graph mixed_records)))"
    by (rule conjunct1)
  from T have general: "length (nodes (build_graph mixed_records))
         + card (gene_ids mixed_records \<inter> te_ids mixed_records)
       = card (gene_ids mixed_records) + card (te_ids mixed_records)"
    by (elim conjE)
  let ?r = "\<lparr>krab_znf = ''ZNF91'', te_gene = ''AluSx'', coef = Finite 0.4, exp_col = ''up-regulated''\<rparr>"
  from T have "\<forall>df1 r df2. mixed_records = df1 @ r # df2
         \<and> (\<forall>r' \<in> set df2. \<not> joins (krab_znf r') (te_gene r') (krab_znf r) (te_gene r))
        \<longrightarrow> edge_weights (build_graph mixed_records) (krab_znf r) (te_gene r) = [coef r]"
    by (elim conjE)
  note L = this[rule_format, of "take 3 mixed_records" ?r "[]"]
  have "edge_weights (build_graph mixed_records) (krab_znf ?r) (te_gene ?r) = [coef ?r]"
    by (rule L) (simp add: mixed_records_def)
  then have w: "edge_weights (build_graph mixed_records) ''ZNF91'' ''AluSx'' = [Finite 0.4]"
    by simp
  from T have K: "\<forall>(u, v, w) \<in> set (edges (build_graph mixed_records)).
        u \<notin> gene_ids mixed_records \<inter> te_ids mixed_records
        \<and> v \<notin> gene_ids mixed_records \<inter> te_ids mixed_records \<longrightarrow>
          (node_type (build_graph mixed_records) u = Some ''gene''
           \<and> node_type (build_graph mixed_records) v = Some ''te'')
        \<or> (node_type (build_graph mixed_records) u = Some ''te''
           \<and> node_type (build_graph mixed_records) v = Some ''gene'')"
    by (elim conjE)
  have m: "(''ZNF91'', ''AluSx'', Finite 0.4) \<in> set (edges (build_graph mixed_records))"
    by (simp add: e)
  have "(node_type (build_graph mixed_records) ''ZNF91'' = Some ''gene''
           \<and> node_type (build_graph mixed_records) ''AluSx'' = Some ''te'')
        \<or> (node_type (build_graph mixed_records) ''ZNF91'' = Some ''te''
           \<and> node_type (build_graph mixed_records) ''AluSx'' = Some ''gene'')"
    using K[rule_format, OF m] by (simp add: i)
  moreover have "node_type (build_graph mixed_records) ''ZNF91'' \<noteq> Some ''te''"
    by code_simp
  ultimately have k: "node_type (build_graph mixed_records) ''ZNF91'' = Some ''gene''"
    "node_type (build_graph mixed_records) ''AluSx'' = Some ''te''"
    by blast+
  have d: "gene_ids overwrite_records \<inter> te_ids overwrite_records = {}"
    by code_simp
  from T' d have sum: "length (nodes (build_graph overwrite_records))
       = card (gene_ids overwrite_records) + card (te_ids overwrite_records)"
    by simp
  have e': "edges (build_graph overwrite_records)
       = [(''TF1'', ''L1PA2'', Finite 0.4), (''TF1'', ''AluSx'', Finite (-0.3))]"
    by code_simp
  let ?s = "\<lparr>krab_znf = ''TF1'', te_gene = ''L1PA2'', coef = Finite 0.4, exp_col = ''up-regulated''\<rparr>"
  from T' have "\<forall>df1 r df2. overwrite_records = df1 @ r # df2
         \<and> (\<forall>r' \<in> set df2. \<not> joins (krab_znf r') (te_gene r') (krab_znf r) (te_gene r))
        \<longrightarrow> edge_weights (build_graph overwrite_records) (krab_znf r) (te_gene r) = [coef r]"
    by (elim conjE)
  note L' = this[rule_format, of "take 2 overwrite_records" ?s "[]"]
  have "edge_weights (build_graph overwrite_records) (krab_znf ?s) (te_gene ?s) = [coef ?s]"
    by (rule L') (simp add: overwrite_records_def)
  then have w': "edge_weights (build_graph overwrite_records) ''TF1'' ''L1PA2'' = [Finite 0.4]"
    by simp
  from n e i simple general w k d sum e' w' show ?thesis by (intro conjI)
qed

text \<open>
  C3 (as amended). A node that has a kind after a prefix of the table has the same kind
  after any further records, provided none of them uses its identifier in the other
  role: a gene node stays a gene node when no later record names it as the TE, and a TE
  node stays a TE node when no later record names it as the gene. Other identifiers of
  the table may be used in both roles.
\<close>

theorem node_kind_stable:
  assumes "node_type (build_graph df) n = Some k"
    and "k = ''gene'' \<longrightarrow> n \<notin> te_ids df'"
    and "k = ''te'' \<longrightarrow> n \<notin> gene_ids df'"
  shows "node_type (build_graph (df @ df')) n = Some k"
  using assms by (rule node_type_build_later)

theorem node_kind_stable_witness:
  "node_type (build_graph first_record) ''ZNF91'' = Some ''gene''
   \<and> ''ZNF91'' \<notin> te_ids (drop 1 mixed_records)
   \<and> ''ZNF91'' \<in> gene_ids (drop 1 mixed_records)
   \<and> node_type (build_graph (first_record @ drop 1 mixed_records)) ''ZNF91'' = Some ''gene''"
proof -
  have t: "node_type (build_graph first_record) ''ZNF91'' = Some ''gene''"
    by code_simp
  have a: "''ZNF91'' \<notin> te_ids (drop 1 mixed_records)"
    by code_simp
  have b: "''ZNF91'' \<in> gene_ids (drop 1 mixed_records)"
    by code_simp
  have "node_type (build_graph (first_record @ drop 1 mixed_records)) ''ZNF91'' = Some ''gene''"
    using node_kind_stable[OF t] a by simp
  with t a b show ?thesis by simp
qed

text \<open>
  \<^verbatim>\<open>add_node\<close> overwrites the \<^verbatim>\<open>type\<close> attribute of an existing node: an
  identifier first seen as a TE turns into a gene node when a later record names it as
  the gene.
\<close>

theorem node_kind_overwritten_counterexample:
  "node_type (build_graph first_record) ''L1PA2'' = Some ''te''
   \<and> node_type (build_graph (first_record @ later_record)) ''L1PA2'' = Some ''gene''"
  by code_simp

subsection \<open>Renderer and layout\<close>

lemma te_border_color_eq:
  "te_border_color d = (if map_of d ''exp'' = Some ''up-regulated'' then custom_red else custom_blue)"
  by (simp add: te_border_color_def dict_get_def split: option.splits)

lemma node_step_ok:
  assumes "pos n = Some (x, y)" and "node_type G n = Some t"
  shows "node_step G pos acc n =
     Inr (acc\<lparr>node_x := node_x acc @ [x], node_y := node_y acc @ [y],
              node_text := node_text acc @ [n],
              node_color := node_color acc @ [fill_rule G n],
              node_border_color := node_border_color acc @ [border_rule G n]\<rparr>)"
proof -
  from assms(2) obtain d where d: "node_attr G n = Some d" "map_of d ''type'' = Some t"
    by (auto simp: node_type_def split: option.splits)
  then have e: "node_exp G n = map_of d ''exp''" by (simp add: node_exp_def)
  show ?thesis
    using assms d
    by (simp add: node_step_def Let_def fill_rule_def border_rule_def e te_border_color_eq)
qed

lemma node_loop_ok:
  assumes "\<forall>n \<in> set ns. pos n \<noteq> None \<and> node_type G n \<noteq> None"
  shows "node_loop G pos acc ns =
     Inr (acc\<lparr>node_x := node_x acc @ map (\<lambda>n. fst (the (pos n))) ns,
              node_y := node_y acc @ map (\<lambda>n. snd (the (pos n))) ns,
              node_text := node_text acc @ ns,
              node_color := node_color acc @ map (fill_rule G) ns,
              node_border_color := node_border_color acc @ map (border_rule G) ns\<rparr>)"
  using assms
proof (induction ns arbitrary: acc)
  case Nil
  then show ?case by simp
next
  case (Cons n ns)
  from Cons.prems obtain x y t where p: "pos n = Some (x, y)" and t: "node_type G n = Some t"
    by auto
  have rest: "\<forall>n \<in> set ns. pos n \<noteq> None \<and> node_type G n \<noteq> None"
    using Cons.prems by simp
  show ?case
    using node_step_ok[of pos n x y G t acc, OF p t] Cons.IH[OF rest] p by simp
qed

lemma edge_scatter_ok:
  assumes "pos u = Some (x0, y0)" and "pos v = Some (x1, y1)"
  shows "edge_scatter pos (u, v, w) =
     Inr \<lparr>ls_x = [Some x0, Some x1, None], ls_y = [Some y0, Some y1, None],
          ls_mode = ''lines'', ls_line_width = 2,
          ls_line_color = (if is_positive w then custom_red else custom_blue),
          ls_hoverinfo = ''text'', ls_text = hover_text u v w, ls_showlegend = False\<rparr>"
  using assms by (simp add: edge_scatter_def)

lemma edge_loop_ok:
  assumes "\<forall>e \<in> set es. ends e \<subseteq> dom pos"
  shows "\<exists>ts. edge_loop pos es = Inr ts \<and> length ts = length es
      \<and> (\<forall>i < length es. edge_scatter pos (es ! i) = Inr (ts ! i))"
  using assms
proof (induction es)
  case Nil
  then show ?case by simp
next
  case (Cons e es)
  obtain u v w where e: "e = (u, v, w)" by (cases e)
  with Cons.prems obtain x0 y0 x1 y1 where p: "pos u = Some (x0, y0)" "pos v = Some (x1, y1)"
    by (auto simp: ends_def)
  from Cons obtain ts where ts: "edge_loop pos es = Inr ts" "length ts = length es"
    "\<forall>i < length es. edge_scatter pos (es ! i) = Inr (ts ! i)"
    by auto
  obtain t where t: "edge_scatter pos e = Inr t"
    using edge_scatter_ok[of pos u x0 y0 v x1 y1 w, OF p] e by simp
  have "\<forall>i < length (e # es). edge_scatter pos ((e # es) ! i) = Inr ((t # ts) ! i)"
    using t ts(3) by (auto simp: nth_Cons split: nat.splits)
  with t ts show ?case by simp
qed

lemma line_traces_app: "line_traces (map Lines ts @ [Markers m]) = ts"
  by (induction ts) simp_all

lemma marker_points_app: "marker_points (map Lines ts @ [Markers m]) = zip (ms_x m) (ms_y m)"
  by (induction ts) simp_all

lemma digit_char_is_digit: "d < 10 \<Longrightarrow> is_digit (digit_char d)"
proof -
  assume "d < 10"
  then have "d \<in> {0,1,2,3,4,5,6,7,8,9}" by auto
  then show ?thesis by (auto simp: is_digit_def digit_char_def)
qed

lemma show_nat_digits: "show_nat n \<noteq> [] \<and> list_all is_digit (show_nat n)"
proof (induction n rule: show_nat.induct)
  case (1 n)
  show ?case
  proof (cases "n < 10")
    case True
    then have "show_nat n = [digit_char n]" by (subst show_nat.simps) simp
    with True show ?thesis by (simp add: digit_char_is_digit)
  next
    case False
    then have "show_nat n = show_nat (n div 10) @ [digit_char (n mod 10)]"
      by (subst show_nat.simps) simp
    with 1[OF False] show ?thesis by (simp add: digit_char_is_digit)
  qed
qed

lemma node_kind_build:
  "n \<in> set (nodes (build_graph df)) \<Longrightarrow>
     node_type (build_graph df) n = Some ''gene'' \<or> node_type (build_graph df) n = Some ''te''"
proof (induction df rule: rev_induct)
  case Nil
  then show ?case by (simp add: build_graph_def empty_graph_def nodes_def)
next
  case (snoc r df)
  then show ?case
    by (auto simp: build_graph_snoc nodes_add_row node_type_add_row)
qed

lemma node_exp_add_row:
  "node_exp (add_row G r) n = (if n = te_gene r then Some (exp_col r) else node_exp G n)"
  by (auto simp: add_row_def Let_def node_exp_def node_attr_add_edge node_attr_add_node
      dict_update_def update_conv' split: option.splits)

lemma te_has_exp:
  "node_type (build_graph df) n = Some ''te'' \<Longrightarrow> \<exists>e. node_exp (build_graph df) n = Some e"
proof (induction df rule: rev_induct)
  case Nil
  then show ?case by (simp add: node_type_empty)
next
  case (snoc r df)
  then show ?case
    by (auto simp: build_graph_snoc node_type_add_row node_exp_add_row split: if_splits)
qed

lemma render_ok:
  assumes "\<forall>e \<in> set (edges G). ends e \<subseteq> dom pos"
    and "\<forall>n \<in> set (nodes G). pos n \<noteq> None \<and> node_type G n \<noteq> None"
  shows "\<exists>ts fig. render G pos = Inr fig \<and> edge_loop pos (edges G) = Inr ts
      \<and> fig_data fig = map Lines ts @ [Markers (node_trace
           \<lparr>node_x = map (\<lambda>n. fst (the (pos n))) (nodes G),
            node_y = map (\<lambda>n. snd (the (pos n))) (nodes G),
            node_text = nodes G,
            node_color = map (fill_rule G) (nodes G),
            node_border_color = map (border_rule G) (nodes G)\<rparr>)]"
proof -
  from edge_loop_ok[OF assms(1)] obtain ts where ts: "edge_loop pos (edges G) = Inr ts" by blast
  show ?thesis
    using ts node_loop_ok[of "nodes G" pos G no_nodes, OF assms(2)]
    by (simp add: render_def no_nodes_def)
qed

lemma render_build_ok:
  assumes "set (nodes (build_graph df)) \<subseteq> dom pos"
  shows "\<exists>ts fig. render (build_graph df) pos = Inr fig
      \<and> edge_loop pos (edges (build_graph df)) = Inr ts
      \<and> fig_data fig = map Lines ts @ [Markers (node_trace
           \<lparr>node_x = map (\<lambda>n. fst (the (pos n))) (nodes (build_graph df)),
            node_y = map (\<lambda>n. snd (the (pos n))) (nodes (build_graph df)),
            node_text = nodes (build_graph df),
            node_color = map (fill_rule (build_graph df)) (nodes (build_graph df)),
            node_border_color = map (border_rule (build_graph df)) (nodes (build_graph df))\<rparr>)]"
proof (rule render_ok)
  show "\<forall>e \<in> set (edges (build_graph df)). ends e \<subseteq> dom pos"
    using assms edges_build_nodes[of _ df] by blast
  show "\<forall>n \<in> set (nodes (build_graph df)). pos n \<noteq> None \<and> node_type (build_graph df) n \<noteq> None"
    using assms node_kind_build[of _ df] by fastforce
qed

text \<open>
  C4 (as amended). For every record table and every position map that covers the nodes,
  the chart is produced, its marker trace lists the nodes in order, and the border colour
  of each node of kind te is \<open>custom_red\<close> when the node's category is exactly
  \<^verbatim>\<open>up-regulated\<close> and \<open>custom_blue\<close> for every other category value; a node
  of kind te always carries a category.
\<close>

theorem te_border_color_rule:
  assumes "set (nodes (build_graph df)) \<subseteq> dom pos"
  shows "\<exists>fig ts m. render (build_graph df) pos = Inr fig
      \<and> fig_data fig = map Lines ts @ [Markers m]
      \<and> ms_text m = nodes (build_graph df)
      \<and> length (ms_marker_line_color m) = length (nodes (build_graph df))
      \<and> (\<forall>i < length (nodes (build_graph df)).
            node_type (build_graph df) (nodes (build_graph df) ! i) = Some ''te'' \<longrightarrow>
            (\<exists>e. node_exp (build_graph df) (nodes (build_graph df) ! i) = Some e
               \<and> ms_marker_line_color m ! i
                   = (if e = ''up-regulated'' then custom_red else custom_blue)))
      \<and> custom_red \<noteq> custom_blue"
proof -
  let ?G = "build_graph df"
  from render_build_ok[OF assms] obtain ts fig where
    r: "render ?G pos = Inr fig"
    and d: "fig_data fig = map Lines ts @ [Markers (node_trace
           \<lparr>node_x = map (\<lambda>n. fst (the (pos n))) (nodes ?G),
            node_y = map (\<lambda>n. snd (the (pos n))) (nodes ?G),
            node_text = nodes ?G,
            node_color = map (fill_rule ?G) (nodes ?G),
            node_border_color = map (border_rule ?G) (nodes ?G)\<rparr>)]" (is "_ = _ @ [Markers ?m]")
    by blast
  have t: "ms_text ?m = nodes ?G" and l: "length (ms_marker_line_color ?m) = length (nodes ?G)"
    by (simp_all add: node_trace_def)
  have b: "\<exists>e. node_exp ?G (nodes ?G ! i) = Some e
               \<and> ms_marker_line_color ?m ! i = (if e = ''up-regulated'' then custom_red else custom_blue)"
    if "i < length (nodes ?G)" "node_type ?G (nodes ?G ! i) = Some ''te''" for i
  proof -
    from te_has_exp[OF that(2)] obtain e where e: "node_exp ?G (nodes ?G ! i) = Some e" by blast
    with that show ?thesis by (simp add: node_trace_def border_rule_def)
  qed
  have c: "custom_red \<noteq> custom_blue" by (simp add: custom_red_def custom_blue_def)
  from r d t l b c show ?thesis by blast
qed

text \<open>
  A category the script does not recognise gets the colour of the down-regulated branch,
  not the colour of \<^verbatim>\<open>up-regulated\<close>.
\<close>

theorem te_border_default_counterexample:
  "te_border_color [(''type'', ''te''), (''exp'', ''unchanged'')] = custom_blue
   \<and> te_border_color [(''type'', ''te''), (''exp'', ''up-regulated'')] = custom_red
   \<and> custom_blue \<noteq> custom_red"
  by (simp add: te_border_color_def dict_get_def custom_red_def custom_blue_def)


lemma example_nodes: "nodes (build_graph example_records) = [''TF1'', ''L1PA2'', ''AluSx'']"
  by code_simp

lemma example_covered: "set (nodes (build_graph example_records)) \<subseteq> dom example_pos"
  by (simp add: example_nodes example_pos_def)

theorem te_border_color_rule_witness:
  "set (nodes (build_graph example_records)) \<subseteq> dom example_pos
   \<and> (\<exists>fig ts m. render (build_graph example_records) example_pos = Inr fig
        \<and> fig_data fig = map Lines ts @ [Markers m]
        \<and> ms_text m = [''TF1'', ''L1PA2'', ''AluSx'']
        \<and> ms_marker_line_color m = [''black'', custom_red, custom_blue])"
proof -
  let ?G = "build_graph example_records"
  from te_border_color_rule[OF example_covered] obtain fig ts m where
    r: "render ?G example_pos = Inr fig" and d: "fig_data fig = map Lines ts @ [Markers m]"
    and t: "ms_text m = nodes ?G"
    by blast
  have "(case render ?G example_pos of Inl err \<Rightarrow> False
         | Inr f \<Rightarrow> (case last (fig_data f) of Lines l \<Rightarrow> False
                      | Markers k \<Rightarrow> ms_marker_line_color k = [''black'', custom_red, custom_blue]))"
    by code_simp
  with r d have "ms_marker_line_color m = [''black'', custom_red, custom_blue]" by simp
  with r d t example_covered show ?thesis by (auto simp: example_nodes)
qed

lemma two_decimals_format_finite: "two_decimals (format_finite w)"
proof -
  define n where "n = nat (round_half_even (\<bar>w\<bar> * 100))"
  define sn where "sn = show_nat (n div 100)"
  define d1 where "d1 = digit_char ((n div 10) mod 10)"
  define d2 where "d2 = digit_char (n mod 10)"
  have sn: "sn \<noteq> []" "list_all is_digit sn"
    using show_nat_digits[of "n div 100"] by (simp_all add: sn_def)
  have dd: "is_digit d1" "is_digit d2"
    by (simp_all add: d1_def d2_def digit_char_is_digit)
  obtain c cs where ccs: "sn = c # cs" using sn(1) by (cases sn) auto
  with sn(2) have "is_digit c" by simp
  then have cm: "c \<noteq> CHR ''-''" by (auto simp: is_digit_def)
  have f: "format_finite w = (if w < 0 then ''-'' else []) @ sn @ ''.'' @ [d1, d2]"
    by (simp add: format_finite_def Let_def n_def sn_def d1_def d2_def)
  show ?thesis
  proof (cases "w < 0")
    case True
    with f have "rev (format_finite w) = d2 # d1 # CHR ''.'' # rev (''-'' @ sn)" by simp
    then show ?thesis using dd sn by (simp add: two_decimals_def)
  next
    case False
    with f have "rev (format_finite w) = d2 # d1 # CHR ''.'' # rev sn" by simp
    then show ?thesis using dd sn ccs cm by (simp add: two_decimals_def)
  qed
qed

lemma digit_value_digit_char: "d < 10 \<Longrightarrow> digit_value (digit_char d) = d"
proof -
  assume "d < 10"
  then have "d \<in> {0,1,2,3,4,5,6,7,8,9}" by auto
  then show ?thesis by (auto simp: digit_value_def digit_char_def)
qed

lemma read_nat_snoc: "read_nat (s @ [c]) = 10 * read_nat s + digit_value c"
  by (simp add: read_nat_def)

lemma read_nat_show_nat: "read_nat (show_nat n) = n"
proof (induction n rule: show_nat.induct)
  case (1 n)
  show ?case
  proof (cases "n < 10")
    case True
    then have "show_nat n = [digit_char n]" by (subst show_nat.simps) simp
    with True show ?thesis by (simp add: read_nat_def digit_value_digit_char)
  next
    case False
    then have "show_nat n = show_nat (n div 10) @ [digit_char (n mod 10)]"
      by (subst show_nat.simps) simp
    with 1[OF False] show ?thesis
      by (simp add: read_nat_snoc digit_value_digit_char)
  qed
qed

lemma filter_digits_show_nat: "filter is_digit (show_nat n) = show_nat n"
  using show_nat_digits[of n] by (simp add: list_all_iff)

lemma not_digit: "\<not> is_digit CHR ''-''" "\<not> is_digit CHR ''.''"
  by (simp_all add: is_digit_def)

lemma read_digits_format_finite:
  "read_nat (filter is_digit (format_finite x)) = nat (round_half_even (\<bar>x\<bar> * 100))"
proof -
  define n where "n = nat (round_half_even (\<bar>x\<bar> * 100))"
  have d: "is_digit (digit_char ((n div 10) mod 10))" "is_digit (digit_char (n mod 10))"
    by (simp_all add: digit_char_is_digit)
  have "filter is_digit (format_finite x)
      = (show_nat (n div 100) @ [digit_char ((n div 10) mod 10)]) @ [digit_char (n mod 10)]"
    using d by (simp add: format_finite_def Let_def n_def[symmetric] filter_digits_show_nat not_digit)
  then have "read_nat (filter is_digit (format_finite x))
      = 10 * (10 * (n div 100) + (n div 10) mod 10) + n mod 10"
    by (simp add: read_nat_snoc read_nat_show_nat digit_value_digit_char del: append_assoc)
  also have "\<dots> = n"
  proof -
    have a: "n div 10 div 10 = n div 100" by (simp add: div_mult2_eq)
    have b: "10 * (n div 10 div 10) + n div 10 mod 10 = n div 10" by simp
    have c: "10 * (n div 10) + n mod 10 = n" by simp
    from a b c show ?thesis by simp
  qed
  finally show ?thesis by (simp add: n_def)
qed

lemma hd_format_finite: "(hd (format_finite x) = CHR ''-'') \<longleftrightarrow> x < 0"
proof (cases "x < 0")
  case True
  then show ?thesis by (simp add: format_finite_def Let_def)
next
  case False
  define n where "n = nat (round_half_even (\<bar>x\<bar> * 100))"
  obtain c cs where ccs: "show_nat (n div 100) = c # cs"
    using show_nat_digits[of "n div 100"] by (cases "show_nat (n div 100)") auto
  with show_nat_digits[of "n div 100"] have "is_digit c" by simp
  then have "c \<noteq> CHR ''-''" using not_digit by auto
  have "format_finite x = c # (cs @ ''.'' @ [digit_char ((n div 10) mod 10), digit_char (n mod 10)])"
    unfolding format_finite_def Let_def n_def[symmetric] ccs using False by simp
  with False \<open>c \<noteq> CHR ''-''\<close> show ?thesis by simp
qed

lemma format_finite_nonempty: "format_finite x \<noteq> []"
  by (simp add: format_finite_def Let_def)

lemma round_half_even_near: "\<bar>of_int (round_half_even y) - y\<bar> \<le> 1 / 2"
proof -
  have "of_int \<lfloor>y\<rfloor> \<le> y" "y < of_int \<lfloor>y\<rfloor> + 1" by linarith+
  then show ?thesis by (auto simp: round_half_even_def Let_def)
qed

lemma round_half_even_nonneg: "0 \<le> y \<Longrightarrow> 0 \<le> round_half_even y"
proof -
  assume "0 \<le> y"
  then have "0 \<le> \<lfloor>y\<rfloor>" by simp
  then show ?thesis by (auto simp: round_half_even_def Let_def)
qed

lemma round_half_even_tie:
  "y - of_int \<lfloor>y\<rfloor> = 1 / 2 \<Longrightarrow> even (round_half_even y)"
  by (auto simp: round_half_even_def Let_def)

lemma read_2f_format_finite:
  "\<bar>read_2f (format_finite x) - x\<bar> \<le> 1 / 200"
proof -
  define m where "m = round_half_even (\<bar>x\<bar> * 100)"
  have m0: "0 \<le> m" unfolding m_def by (rule round_half_even_nonneg) simp
  have near: "\<bar>of_int m - \<bar>x\<bar> * 100\<bar> \<le> 1 / 2" unfolding m_def by (rule round_half_even_near)
  have r: "read_2f (format_finite x) = (if x < 0 then - 1 else 1) * real_of_int m / 100"
    using m0 by (simp add: read_2f_def read_digits_format_finite hd_format_finite
        format_finite_nonempty m_def[symmetric])
  define e where "e = real_of_int m - \<bar>x\<bar> * 100"
  have e: "\<bar>e\<bar> \<le> 1 / 2" using near by (simp add: e_def)
  have "read_2f (format_finite x) - x = (if x < 0 then - e else e) / 100"
    unfolding r e_def by (simp add: field_simps)
  then have "\<bar>read_2f (format_finite x) - x\<bar> = \<bar>(if x < 0 then - e else e) / 100\<bar>"
    by (rule arg_cong)
  also have "\<dots> = \<bar>e\<bar> / 100" by (simp add: abs_divide)
  finally show ?thesis using e by simp
qed

lemma format_2f_finite:
  assumes "is_finite w"
  shows "two_decimals (format_2f w)
     \<and> \<bar>read_2f (format_2f w) - float_value w\<bar> \<le> 1 / 200
     \<and> (midway w \<longrightarrow> even (read_nat (filter is_digit (format_2f w))))"
proof (cases w)
  case (Finite x)
  have "even (read_nat (filter is_digit (format_finite x)))" if "midway w"
  proof -
    from that Finite have "even (round_half_even (\<bar>x\<bar> * 100))"
      by (intro round_half_even_tie) (simp add: midway_def float_value_def)
    moreover have "0 \<le> round_half_even (\<bar>x\<bar> * 100)" by (rule round_half_even_nonneg) simp
    ultimately show ?thesis by (simp add: read_digits_format_finite even_nat_iff)
  qed
  with Finite read_2f_format_finite[of x] show ?thesis
    by (simp add: format_2f_def float_value_def two_decimals_format_finite)
next
  case MinusZero
  have "two_decimals ''-0.00''" by code_simp
  moreover have "read_2f ''-0.00'' = 0" by code_simp
  moreover have "even (read_nat (filter is_digit ''-0.00''))" by code_simp
  ultimately show ?thesis using MinusZero by (simp add: format_2f_def float_value_def)
qed (use assms in \<open>simp_all add: is_finite_def\<close>)


text \<open>
  C6 (as amended). For every record table and every position map that covers the nodes,
  the chart is produced and has exactly one line trace per edge, in edge order. The trace
  of an edge runs between the positions of its two endpoints, is \<open>custom_red\<close> when the
  weight is positive and \<open>custom_blue\<close> (a different colour) otherwise, so also when
  it is negative, and its hover text holds both endpoint names and the printed weight.
  When the weight is finite, the printed weight has exactly two decimals, differs from
  the weight by at most 0.005, and ends in an even digit when the weight lies midway
  between two such numbers.
\<close>

theorem edge_rendering_rule:
  assumes "set (nodes (build_graph df)) \<subseteq> dom pos"
  shows "\<exists>fig. render (build_graph df) pos = Inr fig
      \<and> length (line_traces (fig_data fig)) = length (edges (build_graph df))
      \<and> (\<forall>i < length (edges (build_graph df)).
            case edges (build_graph df) ! i of (u, v, w) \<Rightarrow>
              ls_mode (line_traces (fig_data fig) ! i) = ''lines''
            \<and> ls_x (line_traces (fig_data fig) ! i) = [map_option fst (pos u), map_option fst (pos v), None]
            \<and> ls_y (line_traces (fig_data fig) ! i) = [map_option snd (pos u), map_option snd (pos v), None]
            \<and> ls_line_color (line_traces (fig_data fig) ! i)
                = (if is_positive w then custom_red else custom_blue)
            \<and> ls_text (line_traces (fig_data fig) ! i)
                = u @ '' '' @ arrow @ '' '' @ v @ ''<br>coef='' @ format_2f w
            \<and> (is_finite w \<longrightarrow>
                  two_decimals (format_2f w)
                \<and> \<bar>read_2f (format_2f w) - float_value w\<bar> \<le> 1 / 200
                \<and> (midway w \<longrightarrow> even (read_nat (filter is_digit (format_2f w))))))
      \<and> custom_red \<noteq> custom_blue"
proof -
  let ?G = "build_graph df"
  have cov: "\<forall>e \<in> set (edges ?G). ends e \<subseteq> dom pos"
    using assms edges_build_nodes[of _ df] by blast
  from render_build_ok[OF assms] obtain ts fig where
    r: "render ?G pos = Inr fig" and el: "edge_loop pos (edges ?G) = Inr ts"
    and lt: "line_traces (fig_data fig) = ts"
    by (auto simp: line_traces_app)
  from edge_loop_ok[OF cov] el have len: "length ts = length (edges ?G)"
    and each: "\<forall>i < length (edges ?G). edge_scatter pos (edges ?G ! i) = Inr (ts ! i)"
    by auto
  have row: "case edges ?G ! i of (u, v, w) \<Rightarrow>
              ls_mode (ts ! i) = ''lines''
            \<and> ls_x (ts ! i) = [map_option fst (pos u), map_option fst (pos v), None]
            \<and> ls_y (ts ! i) = [map_option snd (pos u), map_option snd (pos v), None]
            \<and> ls_line_color (ts ! i) = (if is_positive w then custom_red else custom_blue)
            \<and> ls_text (ts ! i) = u @ '' '' @ arrow @ '' '' @ v @ ''<br>coef='' @ format_2f w
            \<and> (is_finite w \<longrightarrow>
                  two_decimals (format_2f w)
                \<and> \<bar>read_2f (format_2f w) - float_value w\<bar> \<le> 1 / 200
                \<and> (midway w \<longrightarrow> even (read_nat (filter is_digit (format_2f w)))))"
    if i: "i < length (edges ?G)" for i
  proof -
    obtain u v w where e: "edges ?G ! i = (u, v, w)" by (cases "edges ?G ! i")
    with i cov have "{u, v} \<subseteq> dom pos"
      by (metis ends_def nth_mem old.prod.case)
    then obtain x0 y0 x1 y1 where p: "pos u = Some (x0, y0)" "pos v = Some (x1, y1)"
      by auto
    from each i e have "edge_scatter pos (u, v, w) = Inr (ts ! i)" by auto
    with edge_scatter_ok[of pos u x0 y0 v x1 y1 w, OF p] have
      "ts ! i = \<lparr>ls_x = [Some x0, Some x1, None], ls_y = [Some y0, Some y1, None],
          ls_mode = ''lines'', ls_line_width = 2,
          ls_line_color = (if is_positive w then custom_red else custom_blue),
          ls_hoverinfo = ''text'', ls_text = hover_text u v w, ls_showlegend = False\<rparr>"
      by simp
    then show ?thesis
      using e p format_2f_finite[of w] by (simp add: hover_text_def)
  qed
  have c: "custom_red \<noteq> custom_blue" by (simp add: custom_red_def custom_blue_def)
  from r len row c show ?thesis unfolding lt[symmetric] by blast
qed

text \<open>
  A record whose coefficient cell is empty is kept under both/both, and the label of its
  edge prints \<^verbatim>\<open>nan\<close>, which has no decimals.
\<close>

theorem edge_label_nan_counterexample:
  "apply_filters ''both'' ''both'' empty_coef_records = empty_coef_records
   \<and> edges (build_graph empty_coef_records) = [(''TF1'', ''L1PA2'', NotANumber)]
   \<and> hover_text ''TF1'' ''L1PA2'' NotANumber = ''TF1 '' @ arrow @ '' L1PA2<br>coef=nan''
   \<and> \<not> two_decimals (format_2f NotANumber)"
  by code_simp

theorem edge_rendering_rule_witness:
  "set (nodes (build_graph rounding_records)) \<subseteq> dom example_pos
   \<and> (\<exists>fig. render (build_graph rounding_records) example_pos = Inr fig
        \<and> length (line_traces (fig_data fig)) = 2
        \<and> map ls_line_color (line_traces (fig_data fig)) = [custom_red, custom_blue]
        \<and> map ls_text (line_traces (fig_data fig))
            = [''TF1 '' @ arrow @ '' L1PA2<br>coef=0.12'', ''TF1 '' @ arrow @ '' AluSx<br>coef=-0.35''])"
proof -
  let ?G = "build_graph rounding_records"
  have n: "nodes ?G = [''TF1'', ''L1PA2'', ''AluSx'']" by code_simp
  have cov: "set (nodes ?G) \<subseteq> dom example_pos" by (simp add: n example_pos_def)
  from edge_rendering_rule[OF cov] obtain fig where
    r: "render ?G example_pos = Inr fig"
    and l: "length (line_traces (fig_data fig)) = length (edges ?G)"
    by blast
  have e: "length (edges ?G) = 2" by code_simp
  have "(case render ?G example_pos of Inl err \<Rightarrow> False
         | Inr f \<Rightarrow> map ls_line_color (line_traces (fig_data f)) = [custom_red, custom_blue]
             \<and> map ls_text (line_traces (fig_data f))
                 = [''TF1 '' @ arrow @ '' L1PA2<br>coef=0.12'', ''TF1 '' @ arrow @ '' AluSx<br>coef=-0.35''])"
    by code_simp
  with r l e cov show ?thesis by simp
qed

text \<open>
  C7. An empty table gives the empty graph, and rendering it with any position map
  returns a chart, never an error: it has no line trace, and its single marker trace has
  no point.
\<close>

theorem empty_graph_rendering:
  "build_graph [] = empty_graph
   \<and> (\<exists>fig m. render (build_graph []) pos = Inr fig
        \<and> fig_data fig = [Markers m]
        \<and> line_traces (fig_data fig) = []
        \<and> marker_points (fig_data fig) = []
        \<and> ms_text m = [])"
  by (simp add: build_graph_def render_def empty_graph_def edges_def nodes_def no_nodes_def
      node_trace_def)

theorem empty_graph_rendering_witness:
  "\<exists>fig m. render (build_graph []) Map.empty = Inr fig
        \<and> fig_data fig = [Markers m]
        \<and> line_traces (fig_data fig) = []
        \<and> marker_points (fig_data fig) = []"
  using empty_graph_rendering[of Map.empty] by blast

lemma nodes_fold_add_edge:
  "set (nodes (foldl (\<lambda>H (u, v, d). add_edge u v (fabs d) H) H0 es)) = set (nodes H0) \<union> \<Union> (ends ` set es)"
proof (induction es arbitrary: H0)
  case Nil
  then show ?case by simp
next
  case (Cons e es)
  obtain u v w where e: "e = (u, v, w)" by (cases e)
  show ?case unfolding e by (auto simp: Cons.IH nodes_add_edge ends_def)
qed

lemma last_coef_in:
  assumes "r \<in> set df"
  shows "\<exists>w. last_coef df (krab_znf r) (te_gene r) = Some w"
proof -
  have "joins (krab_znf r) (te_gene r) (krab_znf r) (te_gene r)" by (simp add: joins_def)
  with assms have "find (\<lambda>r'. joins (krab_znf r') (te_gene r') (krab_znf r) (te_gene r)) (rev df) \<noteq> None"
    by (auto simp: find_None_iff)
  then show ?thesis by (auto simp: last_coef_def)
qed

lemma record_has_edge:
  assumes "r \<in> set df"
  shows "\<exists>e \<in> set (edges (build_graph df)). ends e = {krab_znf r, te_gene r}"
proof -
  from last_coef_in[OF assms] obtain w where w: "last_coef df (krab_znf r) (te_gene r) = Some w"
    by blast
  then have "adj_weight (build_graph df) (krab_znf r) (te_gene r) = Some w"
    and "adj_weight (build_graph df) (te_gene r) (krab_znf r) = Some w"
    by (simp_all add: adj_weight_build last_coef_sym)
  from edges_complete[OF graph_ok_build this] show ?thesis
    by (auto simp: ends_def insert_commute intro: bexI)
qed

lemma nodes_pos_weight_graph:
  "set (nodes (pos_weight_graph (build_graph df))) = set (nodes (build_graph df))"
proof -
  have "\<Union> (ends ` set (edges (build_graph df))) = set (nodes (build_graph df))"
  proof
    show "\<Union> (ends ` set (edges (build_graph df))) \<subseteq> set (nodes (build_graph df))"
      using edges_build_nodes[of _ df] by blast
    show "set (nodes (build_graph df)) \<subseteq> \<Union> (ends ` set (edges (build_graph df)))"
    proof
      fix n assume "n \<in> set (nodes (build_graph df))"
      then obtain r where r: "r \<in> set df" "n = krab_znf r \<or> n = te_gene r"
        by (auto simp: nodes_build gene_ids_def te_ids_def)
      from record_has_edge[OF r(1)] obtain e where "e \<in> set (edges (build_graph df))"
        "ends e = {krab_znf r, te_gene r}" by blast
      with r(2) show "n \<in> \<Union> (ends ` set (edges (build_graph df)))" by blast
    qed
  qed
  moreover have "set (nodes empty_graph) = {}" by (simp add: empty_graph_def nodes_def)
  ultimately show ?thesis
    by (simp only: pos_weight_graph_def nodes_fold_add_edge Un_empty_left)
qed

lemma dom_dict_zip: "dom (dict_zip ns arr) = set ns"
proof -
  let ?ps = "zip ns (map arr [0..<length ns])"
  have m: "map fst ?ps = ns" by (rule map_fst_zip) simp
  have "dom (dict_zip ns arr) = fst ` set (rev ?ps)"
    unfolding dict_zip_def by (rule dom_map_of_conv_image_fst)
  also have "\<dots> = set (map fst ?ps)" by (simp only: set_rev set_map)
  also have "\<dots> = set ns" by (simp only: m)
  finally show ?thesis .
qed

lemma kamada_kawai_layout_dom:
  "kamada_kawai_layout solve H = Inr pos \<Longrightarrow> dom pos = set (nodes H)"
  using dom_dict_zip by (auto simp: kamada_kawai_layout_def split: sum.splits)

lemma single_node: "length ns = 1 \<Longrightarrow> set ns = {hd ns}"
  by (cases ns) auto

lemma spring_layout_dom:
  "spring_layout solve H seed = Inr pos \<Longrightarrow> dom pos = set (nodes H)"
  using dom_dict_zip by (auto simp: spring_layout_def single_node split: if_splits sum.splits)

lemma compute_pos_dom:
  "compute_pos kk fr H = Inr pos \<Longrightarrow> dom pos = set (nodes H)"
  by (auto simp: compute_pos_def dest: kamada_kawai_layout_dom spring_layout_dom split: sum.splits)

lemma compute_pos_single:
  assumes "length (nodes H) = 1"
  shows "\<exists>pos. compute_pos kk fr H = Inr pos"
  using assms by (cases "kamada_kawai_layout kk H") (simp_all add: compute_pos_def spring_layout_def)

lemma compute_pos_no_nodes:
  assumes "nodes H = []"
  shows "compute_pos kk fr H = Inr Map.empty"
proof (cases "kk H")
  case (Inl e)
  with assms show ?thesis
    by (simp add: compute_pos_def kamada_kawai_layout_def spring_layout_def)
next
  case (Inr arr)
  with assms show ?thesis
    by (simp add: compute_pos_def kamada_kawai_layout_def dict_zip_def)
qed

lemma graph_ok_fold_add_edge:
  "graph_ok H0 \<Longrightarrow> graph_ok (foldl (\<lambda>H (u, v, d). add_edge u v (fabs d) H) H0 es)"
proof (induction es arbitrary: H0)
  case Nil
  then show ?case by simp
next
  case (Cons e es)
  obtain u v w where e: "e = (u, v, w)" by (cases e)
  show ?case unfolding e using Cons.prems by (simp add: Cons.IH graph_ok_add_edge)
qed

lemma graph_ok_pos_weight_graph: "graph_ok (pos_weight_graph G)"
  by (simp add: pos_weight_graph_def graph_ok_fold_add_edge graph_ok_empty)

lemma length_nodes_pos_weight_graph:
  "length (nodes (pos_weight_graph (build_graph df))) = length (nodes (build_graph df))"
proof -
  have "length (nodes (pos_weight_graph (build_graph df)))
      = card (set (nodes (pos_weight_graph (build_graph df))))"
    by (simp add: distinct_card distinct_nodes graph_ok_pos_weight_graph)
  also have "\<dots> = card (set (nodes (build_graph df)))"
    by (simp only: nodes_pos_weight_graph)
  also have "\<dots> = length (nodes (build_graph df))"
    by (simp add: distinct_card distinct_nodes graph_ok_build)
  finally show ?thesis .
qed

lemma no_edges_no_nodes:
  assumes "edges (build_graph df) = []"
  shows "nodes (pos_weight_graph (build_graph df)) = []" and "nodes (build_graph df) = []"
proof -
  from assms show a: "nodes (pos_weight_graph (build_graph df)) = []"
    by (simp add: pos_weight_graph_def empty_graph_def nodes_def)
  from nodes_pos_weight_graph[of df] a show "nodes (build_graph df) = []" by simp
qed

text \<open>
  C5. Whatever the numeric layout algorithms do, raising included: for a record table
  whose graph has no edge the layout step returns the empty position map, and that graph
  has no node; for a table whose graph has exactly one node it returns a position for that
  node; whenever the layout step returns, for any table, the result has a position for
  exactly the nodes of the built graph; and whenever the primary layout raises, the result
  of the layout step is the result of the fallback for the same graph and seed 42, which
  depends on nothing else.
\<close>

theorem layout_fallback:
  "(edges (build_graph df) = [] \<longrightarrow>
      compute_pos kk fr (pos_weight_graph (build_graph df)) = Inr Map.empty
      \<and> nodes (build_graph df) = [])
   \<and> (length (nodes (build_graph df)) = 1 \<longrightarrow>
        (\<exists>pos. compute_pos kk fr (pos_weight_graph (build_graph df)) = Inr pos
           \<and> dom pos = set (nodes (build_graph df))))
   \<and> (\<forall>pos. compute_pos kk fr (pos_weight_graph (build_graph df)) = Inr pos \<longrightarrow>
        dom pos = set (nodes (build_graph df)))
   \<and> (\<forall>H e. kamada_kawai_layout kk H = Inl e \<longrightarrow>
        compute_pos kk fr H = spring_layout fr H 42)"
proof -
  let ?H = "pos_weight_graph (build_graph df)"
  have none: "edges (build_graph df) = [] \<longrightarrow>
      compute_pos kk fr ?H = Inr Map.empty \<and> nodes (build_graph df) = []"
    by (simp add: no_edges_no_nodes compute_pos_no_nodes)
  have covers: "\<forall>pos. compute_pos kk fr ?H = Inr pos \<longrightarrow> dom pos = set (nodes (build_graph df))"
    using compute_pos_dom[of kk fr ?H] by (simp add: nodes_pos_weight_graph)
  have one: "length (nodes (build_graph df)) = 1 \<longrightarrow>
        (\<exists>pos. compute_pos kk fr ?H = Inr pos \<and> dom pos = set (nodes (build_graph df)))"
  proof
    assume "length (nodes (build_graph df)) = 1"
    then have "length (nodes ?H) = 1" by (simp only: length_nodes_pos_weight_graph)
    from compute_pos_single[OF this] obtain pos where "compute_pos kk fr ?H = Inr pos"
      by blast
    with covers show "\<exists>pos. compute_pos kk fr ?H = Inr pos \<and> dom pos = set (nodes (build_graph df))"
      by blast
  qed
  have fb: "\<forall>H e. kamada_kawai_layout kk H = Inl e \<longrightarrow>
        compute_pos kk fr H = spring_layout fr H 42"
    by (simp add: compute_pos_def)
  from none one covers fb show ?thesis by (intro conjI)
qed

theorem layout_fallback_witness:
  "edges (build_graph []) = []
   \<and> compute_pos failing_solver failing_seeded_solver (pos_weight_graph (build_graph [])) = Inr Map.empty
   \<and> nodes (build_graph self_loop_records) = [''L1PA2'']
   \<and> (\<exists>pos. compute_pos failing_solver failing_seeded_solver
               (pos_weight_graph (build_graph self_loop_records)) = Inr pos
         \<and> dom pos = {''L1PA2''})
   \<and> (\<exists>pos. compute_pos failing_solver line_solver
               (pos_weight_graph (build_graph example_records)) = Inr pos
         \<and> dom pos = {''TF1'', ''L1PA2'', ''AluSx''})
   \<and> kamada_kawai_layout failing_solver (pos_weight_graph (build_graph example_records))
       = Inl (LayoutError ''did not converge'')
   \<and> compute_pos failing_solver line_solver (pos_weight_graph (build_graph example_records))
       = spring_layout line_solver (pos_weight_graph (build_graph example_records)) 42"
proof -
  note T0 = layout_fallback[of "[]" failing_solver failing_seeded_solver]
  note T1 = layout_fallback[of self_loop_records failing_solver failing_seeded_solver]
  note T3 = layout_fallback[of example_records failing_solver line_solver]
  have e0: "edges (build_graph []) = []" by code_simp
  from T0 e0 have c0: "compute_pos failing_solver failing_seeded_solver
      (pos_weight_graph (build_graph [])) = Inr Map.empty"
    by blast
  have n1: "nodes (build_graph self_loop_records) = [''L1PA2'']" by code_simp
  from T1 have "length (nodes (build_graph self_loop_records)) = 1 \<longrightarrow>
        (\<exists>pos. compute_pos failing_solver failing_seeded_solver
                 (pos_weight_graph (build_graph self_loop_records)) = Inr pos
           \<and> dom pos = set (nodes (build_graph self_loop_records)))"
    by (elim conjE)
  then have c1: "\<exists>pos. compute_pos failing_solver failing_seeded_solver
               (pos_weight_graph (build_graph self_loop_records)) = Inr pos
         \<and> dom pos = {''L1PA2''}"
    by (simp add: n1)
  have k: "kamada_kawai_layout failing_solver (pos_weight_graph (build_graph example_records))
       = Inl (LayoutError ''did not converge'')"
    by (simp add: kamada_kawai_layout_def failing_solver_def)
  from T3 have F: "\<forall>H e. kamada_kawai_layout failing_solver H = Inl e \<longrightarrow>
        compute_pos failing_solver line_solver H = spring_layout line_solver H 42"
    by (elim conjE)
  from F k have c3: "compute_pos failing_solver line_solver (pos_weight_graph (build_graph example_records))
       = spring_layout line_solver (pos_weight_graph (build_graph example_records)) 42"
    by blast
  have "\<exists>pos. spring_layout line_solver (pos_weight_graph (build_graph example_records)) 42 = Inr pos"
    by (simp add: spring_layout_def line_solver_def)
  then obtain pos where p: "compute_pos failing_solver line_solver
      (pos_weight_graph (build_graph example_records)) = Inr pos"
    using c3 by auto
  from T3 have "\<forall>pos. compute_pos failing_solver line_solver
        (pos_weight_graph (build_graph example_records)) = Inr pos \<longrightarrow>
        dom pos = set (nodes (build_graph example_records))"
    by (elim conjE)
  with p have "dom pos = {''TF1'', ''L1PA2'', ''AluSx''}"
    by (simp add: example_nodes)
  with p have c2: "\<exists>pos. compute_pos failing_solver line_solver
               (pos_weight_graph (build_graph example_records)) = Inr pos
         \<and> dom pos = {''TF1'', ''L1PA2'', ''AluSx''}"
    by blast
  from e0 c0 n1 c1 c2 k c3 show ?thesis by (intro conjI)
qed

subsection \<open>CSV loader\<close>

lemma rows_rename: "rows (rename_columns f df) = map (map (\<lambda>(k, v). (f k, v))) (rows df)"
  by (simp add: rename_columns_def)























lemma map_of_entry_present: "map_of (AList.map_entry k f r) c \<noteq> None \<longleftrightarrow> map_of r c \<noteq> None"
  by (simp add: map_of_map_entry split: option.splits)
























subsection \<open>Filters of the tabular dashboards\<close>


lemma rows_select: "rows (select_rows P df) = filter P (rows df)"
  by (simp add: select_rows_def)







lemma numeric_columnD:
  assumes "numeric_column col df" and "r \<in> set (rows df)"
  shows "\<exists>x. map_of r col = Some (Num x)"
proof -
  from assms have "case map_of r col of Some (Num x) \<Rightarrow> True | _ \<Rightarrow> False"
    by (simp add: numeric_column_def list_all_iff)
  then show ?thesis by (cases "map_of r col") (auto split: cell.splits)
qed










subsection \<open>Strip plot\<close>

lemma midpoint_cell_numeric:
  assumes "map_of r ''START'' = Some (Num s)" and "map_of r ''END'' = Some (Num e)"
  shows "midpoint_cell r = Inr (Num (row_midpoint r))"
  using assms by (simp add: midpoint_cell_def cell_add_def cell_half_def row_midpoint_def)

lemma midpoints_numeric:
  assumes "\<forall>r \<in> set rs. (\<exists>s. map_of r ''START'' = Some (Num s)) \<and> (\<exists>e. map_of r ''END'' = Some (Num e))"
  shows "midpoints rs = Inr (map (\<lambda>r. Num (row_midpoint r)) rs)"
  using assms
proof (induction rs)
  case Nil
  then show ?case by simp
next
  case (Cons r rs)
  from Cons.prems obtain s e where "map_of r ''START'' = Some (Num s)" "map_of r ''END'' = Some (Num e)"
    by auto
  then have m: "midpoint_cell r = Inr (Num (row_midpoint r))" by (rule midpoint_cell_numeric)
  from Cons have "midpoints rs = Inr (map (\<lambda>r. Num (row_midpoint r)) rs)" by simp
  with m show ?case by simp
qed

lemma zip_map_same: "map (\<lambda>(r, v). g r v) (zip rs (map f rs)) = map (\<lambda>r. g r (f r)) rs"
  by (induction rs) simp_all

lemma rows_assign:
  "rows (assign_column col (map f (rows df)) df) = map (\<lambda>r. AList.update col (f r) r) (rows df)"
  by (simp add: assign_column_def zip_map_same)

lemma map_filter_cond:
  assumes "\<And>x. x \<in> set xs \<Longrightarrow> f x = (if P x then Some (h x) else None)"
  shows "List.map_filter f xs = map h (filter P xs)"
  using assms by (induction xs) (simp_all add: List.map_filter_simps)

lemma map_filter_total:
  assumes "\<And>x. x \<in> set xs \<Longrightarrow> f x = Some (h x)"
  shows "List.map_filter f xs = map h xs"
  using assms by (induction xs) (simp_all add: List.map_filter_simps)

lemma map_filter_map: "List.map_filter f (map g xs) = List.map_filter (f \<circ> g) xs"
  by (induction xs) (simp_all add: List.map_filter_simps split: option.splits)

lemma in_map_filter: "x \<in> set xs \<Longrightarrow> f x = Some y \<Longrightarrow> y \<in> set (List.map_filter f xs)"
  by (induction xs) (auto simp: List.map_filter_simps split: option.splits)

lemma chrom_present_iff:
  assumes "Str s \<in> set vals"
  shows "s \<in> set (filter (\<lambda>c. Str c \<in> set vals) chrom_order) \<longleftrightarrow> s \<in> set chrom_order"
  using assms by auto

lemma categorical_present:
  assumes "c \<in> set vals"
  shows "categorical (filter (\<lambda>c. Str c \<in> set vals) chrom_order) c
       = (case c of Str s \<Rightarrow> if s \<in> set chrom_order then Str s else NaN | _ \<Rightarrow> NaN)"
  using assms by (auto simp: categorical_def split: cell.splits)

text \<open>
  C10. For every table whose \<^verbatim>\<open>START\<close> and \<^verbatim>\<open>END\<close> columns hold numbers and that
  has a \<^verbatim>\<open>CHROM\<close> column: the chart is built; the \<^verbatim>\<open>midpoint\<close> of every row is
  (START + END) / 2; the \<^verbatim>\<open>CHROM\<close> of a row keeps its label when that is one of
  chr1 to chr22, chrX, chrY and becomes undefined otherwise; so the positioned points are
  exactly the rows with a standard label, in row order, each at its midpoint; and the
  category axis lists standard labels only.
\<close>

theorem strip_plot_points:
  assumes "numeric_column ''START'' df" and "numeric_column ''END'' df"
    and "has_column ''CHROM'' df"
  shows "\<exists>fig. plot_swarmplot df = Inr fig
     \<and> map (\<lambda>r. map_of r ''midpoint'') (rows (sf_frame fig))
         = map (\<lambda>r. Some (Num (row_midpoint r))) (rows df)
     \<and> map (\<lambda>r. map_of r ''CHROM'') (rows (sf_frame fig))
         = map (\<lambda>r. Some (if standard_chrom r then Str (row_label r) else NaN)) (rows df)
     \<and> strip_points fig = map (\<lambda>r. (row_midpoint r, row_label r)) (filter standard_chrom (rows df))
     \<and> set (sf_categoryarray fig) \<subseteq> set chrom_order"
proof -
  let ?ms = "map (\<lambda>r. Num (row_midpoint r)) (rows df)"
  let ?df1 = "assign_column ''midpoint'' ?ms df"
  let ?vals = "column_values ''CHROM'' ?df1"
  let ?present = "filter (\<lambda>c. Str c \<in> set ?vals) chrom_order"
  let ?up = "\<lambda>r. AList.map_entry ''CHROM'' (categorical ?present)
                 (AList.update ''midpoint'' (Num (row_midpoint r)) r)"
  let ?fig = "\<lparr>sf_frame = map_column ''CHROM'' (categorical ?present) ?df1,
               sf_x = ''midpoint'', sf_y = ''CHROM'', sf_jitter = 0.3,
               sf_title = ''Distribution of Midpoints by Chromosome'',
               sf_categoryarray = ?present\<rparr>"
  have cols: "''START'' \<in> set (columns df)" "''END'' \<in> set (columns df)" "''CHROM'' \<in> set (columns df)"
    using assms by (simp_all add: numeric_column_def has_column_def)
  have num: "\<forall>r \<in> set (rows df). (\<exists>s. map_of r ''START'' = Some (Num s)) \<and> (\<exists>e. map_of r ''END'' = Some (Num e))"
    using numeric_columnD[OF assms(1)] numeric_columnD[OF assms(2)] by blast
  have mp: "midpoints (rows df) = Inr ?ms" by (rule midpoints_numeric[OF num])
  have c1: "''CHROM'' \<in> set (columns ?df1)" using cols by (simp add: assign_column_def)
  have run: "plot_swarmplot df = Inr ?fig"
    using cols mp c1 by (simp add: plot_swarmplot_def Let_def)
  have r1: "rows ?df1 = map (\<lambda>r. AList.update ''midpoint'' (Num (row_midpoint r)) r) (rows df)"
    using rows_assign[of "''midpoint''" "\<lambda>r. Num (row_midpoint r)" df] by simp
  have frame: "rows (sf_frame ?fig) = map ?up (rows df)"
    by (simp add: map_column_def r1 del: AList.map_entry.simps)
  have chrom: "\<exists>c. map_of r ''CHROM'' = Some c" if "r \<in> set (rows df)" for r
    using assms(3) that by (auto simp: has_column_def list_all_iff)
  have vals: "c \<in> set ?vals" if "r \<in> set (rows df)" "map_of r ''CHROM'' = Some c" for r c
  proof -
    have "map_of (AList.update ''midpoint'' (Num (row_midpoint r)) r) ''CHROM'' = Some c"
      using that(2) by (simp add: update_conv')
    moreover have "AList.update ''midpoint'' (Num (row_midpoint r)) r \<in> set (rows ?df1)"
      unfolding r1 using that(1) by simp
    ultimately show ?thesis
      unfolding column_values_def by (rule in_map_filter[rotated])
  qed
  have mid: "map_of (?up r) ''midpoint'' = Some (Num (row_midpoint r))" for r
    by (simp add: map_of_map_entry update_conv')
  have cat: "map_of (?up r) ''CHROM'' = Some (if standard_chrom r then Str (row_label r) else NaN)"
    if "r \<in> set (rows df)" for r
  proof -
    from chrom[OF that] obtain c where c: "map_of r ''CHROM'' = Some c" by blast
    have "map_of (?up r) ''CHROM'' = Some (categorical ?present c)"
      using c by (simp add: map_of_map_entry update_conv')
    also have "categorical ?present c
        = (case c of Str s \<Rightarrow> if s \<in> set chrom_order then Str s else NaN | _ \<Rightarrow> NaN)"
      by (rule categorical_present[OF vals[OF that c]])
    also have "\<dots> = (if standard_chrom r then Str (row_label r) else NaN)"
      using c by (simp add: standard_chrom_def row_label_def split: cell.splits)
    finally show ?thesis .
  qed
  have a: "map (\<lambda>r. map_of r ''midpoint'') (rows (sf_frame ?fig))
         = map (\<lambda>r. Some (Num (row_midpoint r))) (rows df)"
    unfolding frame by (simp add: mid comp_def del: AList.map_entry.simps)
  have b: "map (\<lambda>r. map_of r ''CHROM'') (rows (sf_frame ?fig))
         = map (\<lambda>r. Some (if standard_chrom r then Str (row_label r) else NaN)) (rows df)"
    unfolding frame map_map comp_def by (rule map_cong[OF refl]) (rule cat)
  have c: "strip_points ?fig = map (\<lambda>r. (row_midpoint r, row_label r)) (filter standard_chrom (rows df))"
  proof -
    have "strip_points ?fig
        = List.map_filter ((\<lambda>r. case (map_of r ''midpoint'', map_of r ''CHROM'') of
               (Some (Num x), Some (Str c)) \<Rightarrow> Some (x, c) | _ \<Rightarrow> None) \<circ> ?up) (rows df)"
      unfolding strip_points_def frame map_filter_map by simp
    also have "\<dots> = map (\<lambda>r. (row_midpoint r, row_label r)) (filter standard_chrom (rows df))"
    proof (rule map_filter_cond)
      fix r assume "r \<in> set (rows df)"
      then show "((\<lambda>r. case (map_of r ''midpoint'', map_of r ''CHROM'') of
               (Some (Num x), Some (Str c)) \<Rightarrow> Some (x, c) | _ \<Rightarrow> None) \<circ> ?up) r
          = (if standard_chrom r then Some (row_midpoint r, row_label r) else None)"
        unfolding comp_def mid by (simp add: cat del: AList.map_entry.simps)
    qed
    finally show ?thesis .
  qed
  have d: "set (sf_categoryarray ?fig) \<subseteq> set chrom_order" by auto
  from run a b c d show ?thesis by blast
qed


theorem strip_plot_points_witness:
  "numeric_column ''START'' motif_table \<and> numeric_column ''END'' motif_table
   \<and> has_column ''CHROM'' motif_table
   \<and> (\<exists>fig. plot_swarmplot motif_table = Inr fig
         \<and> strip_points fig = [(221 / 2, ''chr2''), (35 / 2, ''chr1'')]
         \<and> map (\<lambda>r. map_of r ''CHROM'') (rows (sf_frame fig))
             = [Some (Str ''chr2''), Some NaN, Some (Str ''chr1'')])"
proof -
  have h: "numeric_column ''START'' motif_table" "numeric_column ''END'' motif_table"
    "has_column ''CHROM'' motif_table"
    by code_simp+
  have v: "map (\<lambda>r. (row_midpoint r, row_label r)) (filter standard_chrom (rows motif_table))
      = [(221 / 2, ''chr2''), (35 / 2, ''chr1'')]"
    by code_simp
  have w: "map (\<lambda>r. Some (if standard_chrom r then Str (row_label r) else NaN)) (rows motif_table)
      = [Some (Str ''chr2''), Some NaN, Some (Str ''chr1'')]"
    by code_simp
  from strip_plot_points[OF h] h v w show ?thesis by auto
qed

end
